(* ===== verification/Prelude.thy ===== *)
theory Prelude
  imports Main "HOL-Library.Multiset"
begin

text \<open>
  What every component shares: the units of time, the numbers and strings of the language,
  the array operation \<open>splice\<close>, objects with integer keys, and the notion of a component as a
  transition system with an invariant.  The lemmas here are about lists and strings only; the
  program's own definitions start in the component theories.
\<close>

named_theorems handler_defs \<open>the definitions of the event handlers\<close>
named_theorems const_defs \<open>the named constants of the source\<close>
named_theorems frame_simps \<open>fields an operation leaves alone\<close>

section \<open>Time\<close>

definition SECONDS :: int where "SECONDS = 1000"
definition MINUTES :: int where "MINUTES = 60 * SECONDS"

lemmas [const_defs] = SECONDS_def MINUTES_def

section \<open>Numbers\<close>

text \<open>
  \<open>Math.round( x / 1000 )\<close> of an integer \<open>x\<close>: the nearest integer, halves upwards.
\<close>

definition round_div :: "int \<Rightarrow> int \<Rightarrow> int" where
  "round_div x d = (2 * x + d) div (2 * d)"

text \<open>\<open>x || d\<close>: the default where \<open>x\<close> is undefined or zero.\<close>

definition js_or :: "int option \<Rightarrow> int \<Rightarrow> int" where
  "js_or x d = (case x of None \<Rightarrow> d | Some n \<Rightarrow> if n = 0 then d else n)"

lemma js_or_simps [simp]:
  "js_or None d = d" "js_or (Some 0) d = d" "n \<noteq> 0 \<Longrightarrow> js_or (Some n) d = n"
  by (simp_all add: js_or_def)

section \<open>Decimal strings\<close>

definition digit :: "nat \<Rightarrow> char" where
  "digit n = char_of (48 + n)"

fun show_nat :: "nat \<Rightarrow> string" where
  "show_nat n = (if n < 10 then [digit n] else show_nat (n div 10) @ [digit (n mod 10)])"

declare show_nat.simps [simp del]

definition show_int :: "int \<Rightarrow> string" where
  "show_int n = (if n < 0 then CHR ''-'' # show_nat (nat (- n)) else show_nat (nat n))"

lemma show_nat_nonempty [simp]: "show_nat n \<noteq> []"
  by (subst show_nat.simps) simp

section \<open>Strings\<close>

text \<open>\<open>s.indexOf( p )\<close> as an option: the first position where \<open>p\<close> starts in \<open>s\<close>.\<close>

fun is_prefix :: "string \<Rightarrow> string \<Rightarrow> bool" where
  "is_prefix [] s = True"
| "is_prefix (c # p) [] = False"
| "is_prefix (c # p) (d # s) = (c = d \<and> is_prefix p s)"

fun index_of :: "string \<Rightarrow> string \<Rightarrow> nat option" where
  "index_of p [] = (if p = [] then Some 0 else None)"
| "index_of p (c # s) = (if is_prefix p (c # s) then Some 0 else map_option Suc (index_of p s))"

definition contains :: "string \<Rightarrow> string \<Rightarrow> bool" where
  "contains p s = (index_of p s \<noteq> None)"

lemma is_prefix_append [simp]: "is_prefix p (p @ s)"
  by (induction p) auto

lemma is_prefix_appendI: "is_prefix p s \<Longrightarrow> is_prefix p (s @ t)"
  by (induction p s rule: is_prefix.induct) auto

lemma is_prefix_set: "is_prefix p s \<Longrightarrow> set p \<subseteq> set s"
  by (induction p s rule: is_prefix.induct) auto

lemma contains_Nil [simp]: "contains p [] = (p = [])"
  by (simp add: contains_def)

lemma contains_Cons [simp]: "contains p (c # s) = (is_prefix p (c # s) \<or> contains p s)"
  by (simp add: contains_def)

lemma contains_empty [simp]: "contains [] s"
  by (cases s) (auto simp: contains_def)

lemma contains_appendI1: "contains p s \<Longrightarrow> contains p (s @ t)"
proof (induction s)
  case (Cons c s)
  then have "is_prefix p (c # s) \<or> contains p s" by simp
  then have "is_prefix p ((c # s) @ t) \<or> contains p (s @ t)"
    using Cons.IH is_prefix_appendI by blast
  then show ?case by simp
qed simp

lemma contains_set: "contains p s \<Longrightarrow> set p \<subseteq> set s"
proof (induction s)
  case (Cons c s)
  then have "is_prefix p (c # s) \<or> contains p s" by simp
  then show ?case using Cons.IH is_prefix_set [of p "c # s"] by auto
qed simp

text \<open>\<open>s.split( c )\<close> for a one-character separator: always at least one piece.\<close>

fun split_on :: "char \<Rightarrow> string \<Rightarrow> string list" where
  "split_on c [] = [[]]"
| "split_on c (d # s) =
     (if d = c then [] # split_on c s
      else (case split_on c s of [] \<Rightarrow> [[d]] | w # ws \<Rightarrow> (d # w) # ws))"

lemma split_on_nonempty [simp]: "split_on c s \<noteq> []"
  by (cases s) (auto split: list.split)

text \<open>\<open>a.join( sep )\<close> for an array of strings.\<close>

fun join :: "string \<Rightarrow> string list \<Rightarrow> string" where
  "join sep [] = []"
| "join sep [w] = w"
| "join sep (w # ws) = w @ sep @ join sep ws"

section \<open>Arrays\<close>

text \<open>\<open>a.splice( i, n )\<close>: the elements taken out and what is left of \<open>a\<close>.\<close>

definition splice_at :: "nat \<Rightarrow> nat \<Rightarrow> 'a list \<Rightarrow> 'a list \<times> 'a list" where
  "splice_at i n xs = (take n (drop i xs), take i xs @ drop (i + n) xs)"

lemma splice_at_0 [simp]: "splice_at 0 n xs = (take n xs, drop n xs)"
  by (simp add: splice_at_def)

lemma mset_splice_at: "splice_at i n xs = (ys, zs) \<Longrightarrow> mset ys + mset zs = mset xs"
proof -
  assume "splice_at i n xs = (ys, zs)"
  then have e: "ys = take n (drop i xs)" "zs = take i xs @ drop n (drop i xs)"
    by (auto simp: splice_at_def add.commute)
  have "mset xs = mset (take i xs @ take n (drop i xs) @ drop n (drop i xs))"
    by (simp only: append_take_drop_id)
  then show ?thesis unfolding e by (simp only: mset_append ac_simps)
qed

text \<open>The loop that finds the first element with a property, splices it out and breaks.\<close>

fun delete_first :: "('a \<Rightarrow> bool) \<Rightarrow> 'a list \<Rightarrow> 'a list" where
  "delete_first P [] = []"
| "delete_first P (x # xs) = (if P x then xs else x # delete_first P xs)"

lemma set_delete_first_subset: "set (delete_first P xs) \<subseteq> set xs"
  by (induction xs) auto

lemma length_delete_first:
  "length (delete_first P xs) = length xs - (if \<exists>x\<in>set xs. P x then 1 else 0)"
proof (induction xs)
  case (Cons x xs)
  show ?case
  proof (cases "\<exists>y\<in>set xs. P y")
    case True
    then have "xs \<noteq> []" by auto
    with True Cons.IH show ?thesis by (cases xs) auto
  next
    case False
    with Cons.IH show ?thesis by auto
  qed
qed simp

lemma delete_first_distinct_map:
  "distinct (map f xs) \<Longrightarrow> delete_first (\<lambda>x. f x = k) xs = filter (\<lambda>x. f x \<noteq> k) xs"
proof (induction xs)
  case (Cons x xs)
  then show ?case
    by (auto intro!: filter_True [symmetric]) (metis image_eqI)
qed simp

text \<open>A loop is as quiet as its body: \<open>R\<close> relates the states before and after.\<close>

definition preorder_rel :: "('s \<Rightarrow> 's \<Rightarrow> bool) \<Rightarrow> bool" where
  "preorder_rel R \<longleftrightarrow> (\<forall>u. R u u) \<and> (\<forall>u v w. R u v \<longrightarrow> R v w \<longrightarrow> R u w)"

lemma preorder_relI: "(\<And>u. R u u) \<Longrightarrow> (\<And>u v w. R u v \<Longrightarrow> R v w \<Longrightarrow> R u w) \<Longrightarrow> preorder_rel R"
  unfolding preorder_rel_def by blast

lemma fold_closed:
  assumes "preorder_rel R" and "\<And>x u. x \<in> set xs \<Longrightarrow> R u (f x u)"
  shows "R s (fold f xs s)"
  using assms(2)
proof (induction xs arbitrary: s)
  case Nil
  show ?case using assms(1) by (simp add: preorder_rel_def)
next
  case (Cons x xs)
  have "R (f x s) (fold f xs (f x s))" by (rule Cons.IH) (simp add: Cons.prems)
  moreover have "R s (f x s)" by (simp add: Cons.prems)
  ultimately show ?case using assms(1) unfolding preorder_rel_def fold_simps(2) by blast
qed

section \<open>Objects with integer keys\<close>

text \<open>
  An object whose keys are non-negative integers is enumerated in ascending order of its keys,
  whatever the order of insertion: an association list kept sorted by key.
\<close>

type_synonym 'v nobj = "(nat \<times> 'v) list"

definition nobj_get :: "'v nobj \<Rightarrow> nat \<Rightarrow> 'v option" where
  "nobj_get m k = map_of m k"

fun nobj_put :: "nat \<Rightarrow> 'v \<Rightarrow> 'v nobj \<Rightarrow> 'v nobj" where
  "nobj_put k v [] = [(k, v)]"
| "nobj_put k v ((k', v') # m) =
     (if k < k' then (k, v) # (k', v') # m
      else if k = k' then (k, v) # m
      else (k', v') # nobj_put k v m)"

definition nobj_del :: "nat \<Rightarrow> 'v nobj \<Rightarrow> 'v nobj" where
  "nobj_del k m = filter (\<lambda>p. fst p \<noteq> k) m"

definition nobj_ok :: "'v nobj \<Rightarrow> bool" where
  "nobj_ok m = sorted_wrt (<) (map fst m)"

lemma nobj_ok_Nil [simp]: "nobj_ok []"
  by (simp add: nobj_ok_def)

lemma nobj_get_Nil [simp]: "nobj_get [] k = None"
  by (simp add: nobj_get_def)

lemma set_nobj_put: "fst ` set (nobj_put k v m) = insert k (fst ` set m)"
  by (induction k v m rule: nobj_put.induct) auto

lemma nobj_ok_put [simp]: "nobj_ok m \<Longrightarrow> nobj_ok (nobj_put k v m)"
proof (induction k v m rule: nobj_put.induct)
  case (2 k v k' v' m)
  show ?case
  proof (cases "k' < k")
    case True
    with 2 have "nobj_ok (nobj_put k v m)" by (simp add: nobj_ok_def)
    moreover have "\<forall>x \<in> fst ` set (nobj_put k v m). k' < x"
      using 2(2) True unfolding set_nobj_put by (auto simp: nobj_ok_def)
    ultimately show ?thesis using True by (simp add: nobj_ok_def)
  next
    case False
    with "2.prems" show ?thesis by (auto simp: nobj_ok_def)
  qed
qed (simp add: nobj_ok_def)

lemma nobj_get_put [simp]:
  "nobj_ok m \<Longrightarrow> nobj_get (nobj_put k v m) j = (if j = k then Some v else nobj_get m j)"
proof (induction k v m rule: nobj_put.induct)
  case (2 k v k' v' m)
  then show ?case
    by (auto simp: nobj_ok_def nobj_get_def)
qed (auto simp: nobj_get_def)

lemma nobj_ok_del [simp]: "nobj_ok m \<Longrightarrow> nobj_ok (nobj_del k m)"
  unfolding nobj_ok_def nobj_del_def
  by (induction m) auto

lemma nobj_get_del [simp]: "nobj_get (nobj_del k m) j = (if j = k then None else nobj_get m j)"
  unfolding nobj_get_def nobj_del_def by (induction m) auto

section \<open>A component as a transition system\<close>

text \<open>
  The contract a component's event handlers share: from an initial state every event the
  environment may deliver (\<open>ok\<close>) keeps the component's invariant.  Its clients use the two
  lemmas: the invariant holds after any admissible run, and so in every reachable state.
\<close>

locale transition_system =
  fixes init :: "'s \<Rightarrow> bool"
    and step :: "'e \<Rightarrow> 's \<Rightarrow> 's"
    and ok :: "'e \<Rightarrow> 's \<Rightarrow> bool"
    and inv :: "'s \<Rightarrow> bool"
  assumes inv_init: "init s \<Longrightarrow> inv s"
    and inv_step: "inv s \<Longrightarrow> ok e s \<Longrightarrow> inv (step e s)"
begin

fun admissible :: "'e list \<Rightarrow> 's \<Rightarrow> bool" where
  "admissible [] s = True"
| "admissible (e # es) s = (ok e s \<and> admissible es (step e s))"

lemma inv_run: "inv s \<Longrightarrow> admissible es s \<Longrightarrow> inv (fold step es s)"
  by (induction es arbitrary: s) (auto intro: inv_step)

lemma inv_from_init: "init s \<Longrightarrow> admissible es s \<Longrightarrow> inv (fold step es s)"
  by (blast intro: inv_run inv_init)

end

end
