(* ===== verification/Statsd.thy ===== *)
theory Statsd
  imports Prelude
begin

text \<open>
  \<open>lib/statsd.js\<close>: the buffered StatsD client.  A metric is formatted into one line and appended to
  a buffer; the buffer goes out as one datagram when the next line would reach the limit, or when
  the flush timer fires.  The socket is an output: the datagrams handed to \<open>socket.send\<close>, in
  order (a datagram that the socket fails to send is logged and lost, it is not kept).
\<close>

section \<open>Values and lines\<close>

text \<open>
  A value is a number or, where the caller formatted it with \<open>toFixed\<close>, a string: an integer, a
  number with one decimal (the sign and the tenths), or the two quotients of a division by zero.
\<close>

datatype stat_val = VInt int | VFixed1 bool nat | VNaN | VInfinity

fun show_val :: "stat_val \<Rightarrow> string" where
  "show_val (VInt n) = show_int n"
| "show_val (VFixed1 neg n) =
     (if neg then ''-'' else []) @ show_nat (n div 10) @ ''.'' @ show_nat (n mod 10)"
| "show_val VNaN = ''NaN''"
| "show_val VInfinity = ''Infinity''"

datatype stat_call =
    Increment string stat_val
  | Timing string stat_val
  | Gauge string stat_val

text \<open>\<open>increment\<close> and \<open>timing\<close> with the default sample rate 1, as every caller uses them.\<close>

fun message :: "stat_call \<Rightarrow> string" where
  "message (Increment metric v) = metric @ '':'' @ show_val v @ ''|c|@1''"
| "message (Timing metric v) = metric @ '':'' @ show_val v @ ''|ms|@1''"
| "message (Gauge metric v) = metric @ '':'' @ show_val v @ ''|g''"

section \<open>The client\<close>

record statsd =
  prefix :: string
  maxBufferSize :: int
  buffer :: string
  datagrams :: "string list"

definition init_statsd :: "string \<Rightarrow> int \<Rightarrow> statsd" where
  "init_statsd p mtu =
     \<lparr>prefix = p, maxBufferSize = mtu - 29, buffer = [], datagrams = []\<rparr>"

definition flush :: "statsd \<Rightarrow> statsd" where
  "flush s =
     (if length (buffer s) > 0
      then s\<lparr>buffer := [], datagrams := datagrams s @ [buffer s]\<rparr>
      else s)"

definition line :: "statsd \<Rightarrow> string \<Rightarrow> string" where
  "line s msg = prefix s @ msg @ [char_of (10 :: nat)]"

definition send :: "string \<Rightarrow> statsd \<Rightarrow> statsd" where
  "send msg s =
     (let m = line s msg;
          s1 = (if int (length (buffer s)) + int (length m) \<ge> maxBufferSize s then flush s else s)
      in s1\<lparr>buffer := buffer s1 @ m\<rparr>)"

definition stat :: "stat_call \<Rightarrow> statsd \<Rightarrow> statsd" where
  "stat c s = send (message c) s"

text \<open>
  The module's set-up: the first two labels of the host name, swapped, name the host in the
  prefix; the docker host talks to another address with a smaller MTU.
\<close>

definition currentHostname :: "string \<Rightarrow> string" where
  "currentHostname hostname = join ''.'' (rev (take 2 (split_on (CHR ''.'') hostname)))"

definition statsd_setup :: "string \<Rightarrow> string \<times> statsd" where
  "statsd_setup hostname =
     (let h = currentHostname hostname;
          p = ''com.jetpack.jetmon.'' @ h @ ''.''
      in if h = ''jetmon.docker'' then (''statsd'', init_statsd p 1500)
         else (''127.0.0.1'', init_statsd p 65536))"

section \<open>The interface its clients use\<close>

text \<open>
  What a metrics sink promises to the processes that report to it: the bytes given to it, sent
  or still waiting, are exactly the lines of the calls in their order, whatever the flush timer
  does in between.
\<close>

datatype 'm sink_event = Call 'm | FlushTimer

locale metrics_sink =
  fixes call :: "'m \<Rightarrow> 's \<Rightarrow> 's"
    and fire :: "'s \<Rightarrow> 's"
    and stream :: "'s \<Rightarrow> string"
    and render :: "'s \<Rightarrow> 'm \<Rightarrow> string"
  assumes stream_call: "stream (call m s) = stream s @ render s m"
    and stream_fire: "stream (fire s) = stream s"
    and render_call: "render (call m s) = render s"
    and render_fire: "render (fire s) = render s"
begin

fun event :: "'m sink_event \<Rightarrow> 's \<Rightarrow> 's" where
  "event (Call m) s = call m s"
| "event FlushTimer s = fire s"

fun calls :: "'m sink_event list \<Rightarrow> 'm list" where
  "calls [] = []"
| "calls (Call m # es) = m # calls es"
| "calls (FlushTimer # es) = calls es"

lemma render_event: "render (event e s) = render s"
  by (cases e) (simp_all add: render_call render_fire)

lemma nothing_lost: "stream (fold event es s) = stream s @ concat (map (render s) (calls es))"
proof (induction es arbitrary: s)
  case (Cons e es)
  then show ?case
    by (cases e) (simp_all add: stream_call stream_fire render_call render_fire)
qed simp

end

definition stream :: "statsd \<Rightarrow> string" where
  "stream s = concat (datagrams s) @ buffer s"

definition render :: "statsd \<Rightarrow> stat_call \<Rightarrow> string" where
  "render s c = line s (message c)"

lemma flush_frame [simp]:
  "prefix (flush s) = prefix s" "maxBufferSize (flush s) = maxBufferSize s" "buffer (flush s) = []"
  by (auto simp: flush_def)

lemma send_frame [simp]:
  "prefix (send m s) = prefix s" "maxBufferSize (send m s) = maxBufferSize s"
  by (auto simp: send_def Let_def)

lemma stream_flush: "stream (flush s) = stream s"
  by (simp add: flush_def stream_def)

lemma stream_send: "stream (send m s) = stream s @ line s m"
  using stream_flush [of s] by (simp add: send_def stream_def Let_def)

interpretation sd: metrics_sink stat flush stream render
  by unfold_locales
    (simp_all add: stat_def stream_send stream_flush render_def line_def fun_eq_iff)

section \<open>Datagrams\<close>

text \<open>
  \<open>packed s hs g\<close>: the lines accepted so far, in groups: one group \<open>hs ! i\<close> per datagram sent
  and the group \<open>g\<close> in the buffer.  No datagram is empty and no line is cut; a group of more than
  one line stays under the limit.
\<close>

definition fits :: "statsd \<Rightarrow> string list \<Rightarrow> bool" where
  "fits s g \<longleftrightarrow> [] \<notin> set g \<and> (length g \<le> 1 \<or> int (length (concat g)) < maxBufferSize s)"

definition packed :: "statsd \<Rightarrow> string list list \<Rightarrow> string list \<Rightarrow> bool" where
  "packed s hs g \<longleftrightarrow>
     map concat hs = datagrams s \<and> concat g = buffer s \<and> [] \<notin> set hs \<and> (\<forall>h \<in> set (g # hs). fits s h)"

lemma line_nonempty [simp]: "line s m \<noteq> []"
  by (simp add: line_def)

lemma fits_frame [simp]:
  "fits (s\<lparr>buffer := b\<rparr>) = fits s" "fits (s\<lparr>datagrams := d\<rparr>) = fits s" "fits (flush s) = fits s"
  by (auto simp: fits_def fun_eq_iff flush_def)

lemma packed_init: "packed (init_statsd p mtu) [] []"
  by (simp add: packed_def init_statsd_def fits_def)

lemma packed_flush:
  assumes "packed s hs g"
  shows "\<exists>hs'. packed (flush s) hs' [] \<and> concat hs' = concat hs @ g"
proof (cases "buffer s = []")
  case True
  with assms have "g = []" by (cases g) (auto simp: packed_def fits_def)
  with True assms show ?thesis by (auto simp: flush_def)
next
  case False
  with assms have "packed (flush s) (hs @ [g]) []"
    by (auto simp: packed_def flush_def fits_def)
  then show ?thesis by force
qed

lemma packed_append:
  assumes "packed s hs g" and "l \<noteq> []"
    and "g = [] \<or> int (length (buffer s)) + int (length l) < maxBufferSize s"
  shows "packed (s\<lparr>buffer := buffer s @ l\<rparr>) hs (g @ [l])"
proof -
  have "fits s (g @ [l])"
    using assms by (auto simp: packed_def fits_def)
  with assms(1) show ?thesis by (simp add: packed_def)
qed

lemma packed_send:
  assumes "packed s hs g"
  shows "\<exists>hs' g'. packed (send m s) hs' g' \<and> concat hs' @ g' = concat hs @ g @ [line s m]"
proof (cases "int (length (buffer s)) + int (length (line s m)) \<ge> maxBufferSize s")
  case True
  obtain hs1 where h1: "packed (flush s) hs1 []" "concat hs1 = concat hs @ g"
    using packed_flush [OF assms] by blast
  have "packed ((flush s)\<lparr>buffer := buffer (flush s) @ line s m\<rparr>) hs1 ([] @ [line s m])"
    by (rule packed_append [OF h1(1)]) simp_all
  with True have "packed (send m s) hs1 [line s m]" by (simp add: send_def Let_def)
  with h1(2) show ?thesis by force
next
  case False
  have "packed (s\<lparr>buffer := buffer s @ line s m\<rparr>) hs (g @ [line s m])"
    by (rule packed_append [OF assms]) (use False in simp_all)
  with False have "packed (send m s) hs (g @ [line s m])" by (simp add: send_def Let_def)
  then show ?thesis by force
qed

lemma packed_event:
  assumes "packed s hs g"
  shows "\<exists>hs' g'. packed (sd.event e s) hs' g' \<and>
           concat hs' @ g' = concat hs @ g @ map (render s) (sd.calls [e])"
proof (cases e)
  case (Call c)
  with packed_send [OF assms] show ?thesis by (simp add: stat_def render_def)
next
  case FlushTimer
  with packed_flush [OF assms] show ?thesis by force
qed

lemma packed_run:
  "packed s hs g \<Longrightarrow>
   \<exists>hs' g'. packed (fold sd.event es s) hs' g' \<and>
     concat hs' @ g' = concat hs @ g @ map (render s) (sd.calls es)"
proof (induction es arbitrary: s hs g)
  case (Cons e es)
  obtain hs1 g1 where 1: "packed (sd.event e s) hs1 g1"
      "concat hs1 @ g1 = concat hs @ g @ map (render s) (sd.calls [e])"
    using packed_event [OF Cons.prems] by blast
  obtain hs2 g2 where 2: "packed (fold sd.event es (sd.event e s)) hs2 g2"
      "concat hs2 @ g2 = concat hs1 @ g1 @ map (render s) (sd.calls es)"
    using Cons.IH [OF 1(1)] by (auto simp: sd.render_event)
  have "concat hs2 @ g2 = concat hs @ g @ map (render s) (sd.calls (e # es))"
    using 1(2) 2(2) by (cases e) simp_all
  with 2(1) show ?case by auto
qed auto

lemma packed_datagram:
  assumes "packed s hs g" and "d \<in> set (datagrams s)"
  obtains h where "h \<in> set hs" "d = concat h" "h \<noteq> []" "fits s h"
proof -
  from assms have "d \<in> set (map concat hs)" by (simp add: packed_def)
  then obtain h where "h \<in> set hs" "d = concat h" by auto
  with assms(1) that show thesis by (auto simp: packed_def)
qed

end
