(* ===== verification/Check_Stats.thy ===== *)
theory Check_Stats
  imports Prelude
begin

text \<open>
  The statistics of checks that a worker collects (the end of \<open>processResultsCallback\<close> in
  \<open>lib/httpcheck.js\<close>) and that the master adds up (the \<open>stats\<close> message in \<open>lib/jetmon.js\<close>).
  The object \<open>checkStats\<close> has a key per site status, in the order the keys were first written; the
  counters below a status are objects with integer keys.
\<close>

section \<open>Data\<close>

datatype stat_key = Up | Down | Still_down | Unknown

fun key_name :: "stat_key \<Rightarrow> string" where
  "key_name Up = ''up''"
| "key_name Down = ''down''"
| "key_name Still_down = ''still_down''"
| "key_name Unknown = ''unknown''"

record rtt_stats =
  rtt_count :: int
  rtt_sum :: int
  rtt_max :: int
  rtt_min :: int

record key_stats =
  http_code :: "int nobj"
  error_code :: "int nobj"
  rtt_of :: rtt_stats

type_synonym check_stats = "(stat_key \<times> key_stats) list"

text \<open>Assignment to a key of a plain object: in place where it exists, at the end otherwise.\<close>

fun obj_put :: "'k \<Rightarrow> 'v \<Rightarrow> ('k \<times> 'v) list \<Rightarrow> ('k \<times> 'v) list" where
  "obj_put k v [] = [(k, v)]"
| "obj_put k v ((k', v') # m) = (if k = k' then (k, v) # m else (k', v') # obj_put k v m)"

lemma map_of_obj_put [simp]: "map_of (obj_put k v m) = (map_of m)(k \<mapsto> v)"
  by (induction k v m rule: obj_put.induct) (auto simp: fun_eq_iff)

lemma set_obj_put: "set (obj_put k v m) \<subseteq> insert (k, v) (set m)"
  by (induction k v m rule: obj_put.induct) auto

lemma keys_obj_put [simp]: "fst ` set (obj_put k v m) = insert k (fst ` set m)"
  by (induction k v m rule: obj_put.induct) auto

lemma distinct_obj_put [simp]: "distinct (map fst m) \<Longrightarrow> distinct (map fst (obj_put k v m))"
  by (induction k v m rule: obj_put.induct) auto

section \<open>A result in a worker\<close>

text \<open>\<open>counts[ c ] = ( counts[ c ] || 0 ) + 1\<close>.\<close>

definition count_up :: "nat \<Rightarrow> int nobj \<Rightarrow> int nobj" where
  "count_up c m = nobj_put c (js_or (nobj_get m c) 0 + 1) m"

definition record_check :: "stat_key \<Rightarrow> int \<Rightarrow> nat \<Rightarrow> nat \<Rightarrow> check_stats \<Rightarrow> check_stats" where
  "record_check k rtt code err stats =
     (let stats_rtt = round_div rtt 1000
      in case map_of stats k of
           Some st \<Rightarrow>
             obj_put k
               \<lparr>http_code = count_up code (http_code st),
                error_code = (if err \<noteq> 0 then count_up err (error_code st) else error_code st),
                rtt_of = \<lparr>rtt_count = rtt_count (rtt_of st) + 1,
                          rtt_sum = rtt_sum (rtt_of st) + stats_rtt,
                          rtt_max = max (rtt_max (rtt_of st)) stats_rtt,
                          rtt_min = min (rtt_min (rtt_of st)) stats_rtt\<rparr>\<rparr> stats
         | None \<Rightarrow>
             obj_put k
               \<lparr>http_code = nobj_put code 1 [],
                error_code = (if err \<noteq> 0 then nobj_put err 1 [] else []),
                rtt_of = \<lparr>rtt_count = 1, rtt_sum = stats_rtt,
                          rtt_max = stats_rtt, rtt_min = stats_rtt\<rparr>\<rparr> stats)"

section \<open>Adding a worker's report up in the master\<close>

fun merge_counts :: "int nobj \<Rightarrow> int nobj \<Rightarrow> int nobj" where
  "merge_counts m [] = m"
| "merge_counts m ((c, n) # r) =
     merge_counts
       (case nobj_get m c of
          Some x \<Rightarrow> if x \<noteq> 0 then nobj_put c (x + n) m else nobj_put c n m
        | None \<Rightarrow> nobj_put c n m) r"

definition merge_entry :: "key_stats \<Rightarrow> key_stats \<Rightarrow> key_stats" where
  "merge_entry st w =
     \<lparr>http_code = merge_counts (http_code st) (http_code w),
      error_code = merge_counts (error_code st) (error_code w),
      rtt_of = \<lparr>rtt_count = rtt_count (rtt_of st) + rtt_count (rtt_of w),
                rtt_sum = rtt_sum (rtt_of st) + rtt_sum (rtt_of w),
                rtt_max = max (rtt_max (rtt_of st)) (rtt_max (rtt_of w)),
                rtt_min = min (rtt_min (rtt_of st)) (rtt_min (rtt_of w))\<rparr>\<rparr>"

fun merge_stats :: "check_stats \<Rightarrow> check_stats \<Rightarrow> check_stats" where
  "merge_stats stats [] = stats"
| "merge_stats stats ((k, w) # r) =
     merge_stats
       (case map_of stats k of
          Some st \<Rightarrow> obj_put k (merge_entry st w) stats
        | None \<Rightarrow> obj_put k w stats) r"

section \<open>The abstract meaning: the list of results\<close>

text \<open>
  A result as the statistics see it: its status key, round-trip time, HTTP code and error code.
  \<open>describes stats rs\<close>: the object \<open>stats\<close> is exactly the summary of the results \<open>rs\<close>: a key is there
  when a result has it, and under it each code is counted, with the number, the sum, the
  greatest and the least of the rounded times.
\<close>

type_synonym result = "stat_key \<times> int \<times> nat \<times> nat"

definition of_key :: "stat_key \<Rightarrow> result list \<Rightarrow> result list" where
  "of_key k rs = filter (\<lambda>r. fst r = k) rs"

definition rtts :: "result list \<Rightarrow> int list" where
  "rtts rs = map (\<lambda>(k, rtt, code, err). round_div rtt 1000) rs"

definition codes :: "result list \<Rightarrow> nat list" where
  "codes rs = map (\<lambda>(k, rtt, code, err). code) rs"

definition errors :: "result list \<Rightarrow> nat list" where
  "errors rs = filter (\<lambda>e. e \<noteq> 0) (map (\<lambda>(k, rtt, code, err). err) rs)"

definition counts :: "int nobj \<Rightarrow> nat list \<Rightarrow> bool" where
  "counts m cs \<longleftrightarrow> nobj_ok m \<and>
     (\<forall>c. nobj_get m c = (if c \<in> set cs then Some (int (count_list cs c)) else None))"

definition summary :: "key_stats \<Rightarrow> result list \<Rightarrow> bool" where
  "summary st rs \<longleftrightarrow> rs \<noteq> [] \<and> counts (http_code st) (codes rs) \<and> counts (error_code st) (errors rs) \<and>
     rtt_count (rtt_of st) = int (length rs) \<and> rtt_sum (rtt_of st) = sum_list (rtts rs) \<and>
     rtt_max (rtt_of st) = Max (set (rtts rs)) \<and> rtt_min (rtt_of st) = Min (set (rtts rs))"

definition at_key :: "key_stats option \<Rightarrow> result list \<Rightarrow> bool" where
  "at_key e rs = (case e of None \<Rightarrow> rs = [] | Some st \<Rightarrow> summary st rs)"

definition describes :: "check_stats \<Rightarrow> result list \<Rightarrow> bool" where
  "describes stats rs \<longleftrightarrow> distinct (map fst stats) \<and> (\<forall>k. at_key (map_of stats k) (of_key k rs))"

lemma at_key_simps [simp]:
  "at_key None rs = (rs = [])" "at_key (Some st) rs = summary st rs"
  by (simp_all add: at_key_def)

lemma proj_append [simp]:
  "of_key k (rs @ qs) = of_key k rs @ of_key k qs" "rtts (rs @ qs) = rtts rs @ rtts qs"
  "codes (rs @ qs) = codes rs @ codes qs" "errors (rs @ qs) = errors rs @ errors qs"
  by (simp_all add: of_key_def rtts_def codes_def errors_def)

lemma proj_Nil [simp]: "of_key k [] = []" "rtts [] = []" "codes [] = []" "errors [] = []"
  by (simp_all add: of_key_def rtts_def codes_def errors_def)

lemma proj_single [simp]:
  "of_key k [(k', rtt, code, err)] = (if k' = k then [(k', rtt, code, err)] else [])"
  "rtts [(k', rtt, code, err)] = [round_div rtt 1000]" "codes [(k', rtt, code, err)] = [code]"
  "errors [(k', rtt, code, err)] = (if err \<noteq> 0 then [err] else [])"
  by (simp_all add: of_key_def rtts_def codes_def errors_def)

lemma rtts_Nil_iff [simp]: "rtts rs = [] \<longleftrightarrow> rs = []"
  by (simp add: rtts_def)

lemma counts_Nil [simp]: "counts [] []"
  by (simp add: counts_def)

lemma count_list_pos: "c \<in> set cs \<Longrightarrow> count_list cs c \<noteq> 0"
  by (simp add: count_list_0_iff)

lemma counts_single [simp]: "counts [(c, 1)] [c]"
  by (auto simp: counts_def nobj_get_def nobj_ok_def)

lemma counts_up: "counts m cs \<Longrightarrow> counts (count_up c m) (cs @ [c])"
  by (auto simp: counts_def count_up_def js_or_def)

lemma describes_Nil: "describes [] []"
  by (simp add: describes_def)

text \<open>One more result in a worker: the object describes one more result.\<close>

lemma summary_record:
  assumes "summary st rs"
  shows "summary
    \<lparr>http_code = count_up code (http_code st),
     error_code = (if err \<noteq> 0 then count_up err (error_code st) else error_code st),
     rtt_of = \<lparr>rtt_count = rtt_count (rtt_of st) + 1, rtt_sum = rtt_sum (rtt_of st) + round_div rtt 1000,
               rtt_max = max (rtt_max (rtt_of st)) (round_div rtt 1000),
               rtt_min = min (rtt_min (rtt_of st)) (round_div rtt 1000)\<rparr>\<rparr> (rs @ [(k, rtt, code, err)])"
  using assms by (auto simp: summary_def counts_up max.commute min.commute)

lemma summary_first:
  "summary \<lparr>http_code = nobj_put code 1 [], error_code = (if err \<noteq> 0 then nobj_put err 1 [] else []),
     rtt_of = \<lparr>rtt_count = 1, rtt_sum = round_div rtt 1000, rtt_max = round_div rtt 1000,
               rtt_min = round_div rtt 1000\<rparr>\<rparr> [(k, rtt, code, err)]"
  by (simp add: summary_def)

lemma describes_put:
  assumes "describes stats rs" and "summary v (of_key k rs @ qs)" and "\<And>j. of_key j qs = (if j = k then qs else [])"
  shows "describes (obj_put k v stats) (rs @ qs)"
  using assms by (simp add: describes_def)

lemma describes_record:
  assumes "describes stats rs"
  shows "describes (record_check k rtt code err stats) (rs @ [(k, rtt, code, err)])"
proof -
  have one: "of_key j [(k, rtt, code, err)] = (if j = k then [(k, rtt, code, err)] else [])" for j
    by simp
  show ?thesis
  proof (cases "map_of stats k")
    case None
    with assms have e: "of_key k rs = []"
      unfolding describes_def by (metis at_key_simps(1))
    show ?thesis
      unfolding record_check_def Let_def None option.case
      by (rule describes_put [OF assms _ one]) (simp only: e append_Nil summary_first)
  next
    case (Some st)
    with assms have "summary st (of_key k rs)"
      unfolding describes_def by (metis at_key_simps(2))
    then show ?thesis
      unfolding record_check_def Let_def Some option.case
      by (intro describes_put [OF assms _ one] summary_record)
  qed
qed

section \<open>Adding up preserves the meaning\<close>

lemma merge_counts_ok [simp]: "nobj_ok m \<Longrightarrow> nobj_ok (merge_counts m r)"
  by (induction m r rule: merge_counts.induct) (auto split: option.split)

lemma nobj_get_Cons: "nobj_get ((c, n) # r) k = (if k = c then Some n else nobj_get r k)"
  by (simp add: nobj_get_def)

lemma nobj_ok_Cons: "nobj_ok ((c, n) # r) \<longleftrightarrow> nobj_ok r \<and> (\<forall>k \<in> fst ` set r. c < k)"
  by (auto simp: nobj_ok_def)

lemma nobj_get_notin: "c \<notin> fst ` set r \<Longrightarrow> nobj_get r c = None"
  by (simp add: nobj_get_def map_of_eq_None_iff)

text \<open>The loop over the report's codes adds the two counts of every code.\<close>

lemma nobj_get_merge:
  assumes "nobj_ok m" and "nobj_ok r"
  shows "nobj_get (merge_counts m r) k =
    (case nobj_get r k of None \<Rightarrow> nobj_get m k
     | Some n \<Rightarrow> Some (js_or (nobj_get m k) 0 + n))"
  using assms
proof (induction m r rule: merge_counts.induct)
  case (2 m c n r)
  from "2.prems" have "k = c \<Longrightarrow> nobj_get r k = None"
    by (auto simp: nobj_ok_Cons intro!: nobj_get_notin)
  with 2 show ?case
    by (auto simp: nobj_ok_Cons nobj_get_Cons js_or_def split: option.split)
qed simp

lemma counts_merge:
  assumes "counts m cs" and "counts r ds"
  shows "counts (merge_counts m r) (cs @ ds)"
  using assms by (auto simp: counts_def nobj_get_merge js_or_def)

lemma summary_merge:
  assumes "summary st rs" and "summary w qs"
  shows "summary (merge_entry st w) (rs @ qs)"
  using assms
  by (simp add: summary_def merge_entry_def counts_merge Max_Un Min_Un)

lemma distinct_merge_stats [simp]:
  "distinct (map fst m) \<Longrightarrow> distinct (map fst (merge_stats m r))"
  by (induction m r rule: merge_stats.induct) (auto split: option.split)

lemma map_of_merge_stats:
  "distinct (map fst r) \<Longrightarrow> map_of (merge_stats m r) k =
    (case map_of r k of None \<Rightarrow> map_of m k
     | Some w \<Rightarrow> Some (case map_of m k of None \<Rightarrow> w | Some st \<Rightarrow> merge_entry st w))"
proof (induction m r rule: merge_stats.induct)
  case (2 m c w r)
  from "2.prems" have "k = c \<Longrightarrow> map_of r k = None"
    by (auto simp: map_of_eq_None_iff)
  with 2 show ?case by (auto split: option.split)
qed simp

lemma describes_merge:
  assumes "describes m rs" and "describes r qs"
  shows "describes (merge_stats m r) (rs @ qs)"
proof -
  have "at_key (map_of (merge_stats m r) k) (of_key k rs @ of_key k qs)" for k
  proof -
    have "at_key (map_of m k) (of_key k rs)" "at_key (map_of r k) (of_key k qs)"
      and "distinct (map fst r)"
      using assms by (auto simp: describes_def)
    then show ?thesis
      by (auto simp: map_of_merge_stats summary_merge split: option.split)
  qed
  with assms show ?thesis by (simp add: describes_def)
qed

end
