(* ===== verification/Config.thy ===== *)
theory Config
  imports Prelude
begin

text \<open>
  \<open>lib/config.js\<close>: the configuration object every process loads at its start and again when it is
  told to, and the keys of \<open>config/config.json\<close> that the code reads.  Reading the file and
  \<open>JSON.parse\<close> are given by the caller: the file's text where the read succeeds, and a parse
  function.  A key whose absence the code handles (\<open>config.get( k ) || d\<close>) is an option.
\<close>

record verifier =
  v_name :: string
  v_host :: string
  v_port :: string
  v_auth_token :: string

record config =
  DEBUG :: bool
  NUM_WORKERS :: int
  NUM_TO_PROCESS :: int
  DATASET_SIZE :: int
  WORKER_MAX_CHECKS :: "int option"
  WORKER_MAX_MEM_MB :: "int option"
  DB_UPDATES_ENABLE :: bool
  BUCKET_NO_MIN :: int
  BUCKET_NO_MAX :: int
  BATCH_SIZE :: int
  AUTH_TOKEN :: string
  VERIFLIER_BATCH_SIZE :: "int option"
  PEER_OFFLINE_LIMIT :: "int option"
  NUM_OF_CHECKS :: int
  TIME_BETWEEN_CHECKS_SEC :: int
  STATS_UPDATE_INTERVAL_MS :: int
  STATSD_SEND_MEM_USAGE :: bool
  TIME_BETWEEN_NOTICES_MIN :: int
  MIN_TIME_BETWEEN_ROUNDS_SEC :: int
  TIMEOUT_FOR_REQUESTS_SEC :: int
  USE_VARIABLE_CHECK_INTERVALS :: bool
  VERIFIERS :: "verifier list"

section \<open>The cache\<close>

text \<open>
  \<open>_cache\<close> is null until the first load.  \<open>load\<close> throws where the file cannot be read or
  parsed, before it assigns; \<open>get\<close> on the null cache is a TypeError.
\<close>

datatype config_error = ReadError | ParseError | NullCache

type_synonym 'c cache = "'c option"

definition load :: "(string \<Rightarrow> 'c option) \<Rightarrow> string option \<Rightarrow> 'c cache \<Rightarrow> (config_error + 'c) \<times> 'c cache" where
  "load parse file cache =
     (case file of
        None \<Rightarrow> (Inl ReadError, cache)
      | Some txt \<Rightarrow>
          (case parse txt of
             None \<Rightarrow> (Inl ParseError, cache)
           | Some c \<Rightarrow> (Inr c, Some c)))"

definition get :: "('c \<Rightarrow> 'v) \<Rightarrow> 'c cache \<Rightarrow> config_error + 'v" where
  "get key cache = (case cache of None \<Rightarrow> Inl NullCache | Some c \<Rightarrow> Inr (key c))"

lemma load_failed_keeps: "load parse file cache = (Inl e, cache') \<Longrightarrow> cache' = cache"
  by (auto simp: load_def split: option.splits)

lemma load_returned_cached: "load parse file cache = (Inr c, cache') \<Longrightarrow> cache' = Some c"
  by (auto simp: load_def split: option.splits)

text \<open>
  A failed reload leaves every key readable with the value it had; a successful one is seen by
  every later read.
\<close>

lemma get_after_load:
  "get key (snd (load parse file cache)) =
     (case fst (load parse file cache) of Inl e \<Rightarrow> get key cache | Inr c \<Rightarrow> Inr (key c))"
  by (auto simp: load_def get_def split: option.splits)

section \<open>The sample configuration\<close>

text \<open>The values of \<open>config/config-sample.json\<close>, at which the examples are evaluated.\<close>

definition sample_config :: config where
  "sample_config = \<lparr>
     DEBUG = True, NUM_WORKERS = 60, NUM_TO_PROCESS = 40, DATASET_SIZE = 100,
     WORKER_MAX_CHECKS = Some 10000, WORKER_MAX_MEM_MB = Some 53,
     DB_UPDATES_ENABLE = False,
     BUCKET_NO_MIN = 0, BUCKET_NO_MAX = 512, BATCH_SIZE = 32,
     AUTH_TOKEN = ''<AUTH_TOKEN>'',
     VERIFLIER_BATCH_SIZE = Some 200, PEER_OFFLINE_LIMIT = Some 3,
     NUM_OF_CHECKS = 3, TIME_BETWEEN_CHECKS_SEC = 30,
     STATS_UPDATE_INTERVAL_MS = 10000, STATSD_SEND_MEM_USAGE = False,
     TIME_BETWEEN_NOTICES_MIN = 59, MIN_TIME_BETWEEN_ROUNDS_SEC = 300,
     TIMEOUT_FOR_REQUESTS_SEC = 60, USE_VARIABLE_CHECK_INTERVALS = False,
     VERIFIERS = [\<lparr>v_name = ''Veriflier 1'', v_host = ''veriflier'',
                   v_port = ''<VERIFLIER_PORT>'', v_auth_token = ''<VERIFLIER_AUTH_TOKEN>''\<rparr>]\<rparr>"

end
