(* ===== verification/Json.thy ===== *)
theory Json
  imports Prelude
begin

text \<open>
  The values \<open>JSON.parse\<close> gives, and what the code does with a value it has not checked: reading a
  member, the loose comparison \<open>==\<close> with a string or with zero, and the conversion to a string these
  comparisons make.  Objects have their keys in order, each once.  The numbers of the language are a
  type of the caller's, with the conversions between them and strings (\<open>None\<close> is NaN).
\<close>

datatype 'n json =
    JNull
  | JBool bool
  | JNum 'n
  | JStr string
  | JArr "'n json list"
  | JObj "(string \<times> 'n json) list"

record 'n numbers =
  to_number :: "string \<Rightarrow> 'n option"
  num_str :: "'n \<Rightarrow> string"
  zero :: 'n
  one :: 'n

datatype js_error = Bad_syntax | Bad_type

text \<open>Statements in sequence: an exception skips what follows.\<close>

definition and_then :: "js_error + 'a \<Rightarrow> ('a \<Rightarrow> js_error + 'b) \<Rightarrow> js_error + 'b" where
  "and_then x f = (case x of Inl e \<Rightarrow> Inl e | Inr y \<Rightarrow> f y)"

lemma and_then_simps [simp]: "and_then (Inl e) f = Inl e" "and_then (Inr y) f = f y"
  by (simp_all add: and_then_def)

lemma and_then_Inr [simp]: "and_then x f = Inr z \<longleftrightarrow> (\<exists>y. x = Inr y \<and> f y = Inr z)"
  by (cases x) simp_all

text \<open>
  \<open>x.k\<close> for a key \<open>k\<close> that is not among the properties of strings, arrays and functions of the
  language: \<open>undefined\<close> is \<open>None\<close>, and null has no members.
\<close>

fun member :: "string \<Rightarrow> 'n json \<Rightarrow> js_error + 'n json option" where
  "member k JNull = Inl Bad_type"
| "member k (JObj m) = Inr (map_of m k)"
| "member k j = Inr None"

text \<open>
  The conversion of a value to a string, as \<open>==\<close> makes it: an object whose own \<open>toString\<close> hides the
  inherited method cannot be converted; the elements of an array are joined.
\<close>

fun all_some :: "'a option list \<Rightarrow> 'a list option" where
  "all_some [] = Some []"
| "all_some (x # xs) =
     (case x of None \<Rightarrow> None | Some y \<Rightarrow> map_option (Cons y) (all_some xs))"

fun js_string :: "'n numbers \<Rightarrow> 'n json \<Rightarrow> string option" where
  "js_string N JNull = Some ''null''"
| "js_string N (JBool b) = Some (if b then ''true'' else ''false'')"
| "js_string N (JNum n) = Some (num_str N n)"
| "js_string N (JStr s) = Some s"
| "js_string N (JArr xs) =
     map_option (join '','')
       (all_some (map (\<lambda>x. case x of JNull \<Rightarrow> Some [] | _ \<Rightarrow> js_string N x) xs))"
| "js_string N (JObj m) =
     (if map_of m ''toString'' = None then Some ''[object Object]'' else None)"

text \<open>\<open>j == s\<close> for a string \<open>s\<close>, and \<open>0 == j\<close>; \<open>Inl\<close> where the conversion throws.\<close>

definition or_type_error :: "'a option \<Rightarrow> js_error + 'a" where
  "or_type_error x = (case x of None \<Rightarrow> Inl Bad_type | Some y \<Rightarrow> Inr y)"

fun eq_string :: "'n numbers \<Rightarrow> 'n json \<Rightarrow> string \<Rightarrow> js_error + bool" where
  "eq_string N JNull s = Inr False"
| "eq_string N (JBool b) s = Inr (to_number N s = Some (if b then one N else zero N))"
| "eq_string N (JNum n) s = Inr (to_number N s = Some n)"
| "eq_string N (JStr t) s = Inr (t = s)"
| "eq_string N j s = or_type_error (map_option (\<lambda>t. t = s) (js_string N j))"

fun eq_zero :: "'n numbers \<Rightarrow> 'n json \<Rightarrow> js_error + bool" where
  "eq_zero N JNull = Inr False"
| "eq_zero N (JBool b) = Inr (\<not> b)"
| "eq_zero N (JNum n) = Inr (n = zero N)"
| "eq_zero N (JStr s) = Inr (to_number N s = Some (zero N))"
| "eq_zero N j = or_type_error (map_option (\<lambda>t. to_number N t = Some (zero N)) (js_string N j))"

text \<open>The conversion to a number, as the relational operators make it; \<open>None\<close> is NaN.\<close>

fun js_number :: "'n numbers \<Rightarrow> 'n json \<Rightarrow> js_error + 'n option" where
  "js_number N JNull = Inr (Some (zero N))"
| "js_number N (JBool b) = Inr (Some (if b then one N else zero N))"
| "js_number N (JNum n) = Inr (Some n)"
| "js_number N (JStr s) = Inr (to_number N s)"
| "js_number N j = or_type_error (map_option (to_number N) (js_string N j))"

text \<open>\<open>0 == j.length\<close>.\<close>

fun zero_length :: "'n numbers \<Rightarrow> 'n json \<Rightarrow> js_error + bool" where
  "zero_length N JNull = Inl Bad_type"
| "zero_length N (JStr s) = Inr (s = [])"
| "zero_length N (JArr xs) = Inr (xs = [])"
| "zero_length N (JObj m) =
     (case map_of m ''length'' of None \<Rightarrow> Inr False | Some l \<Rightarrow> eq_zero N l)"
| "zero_length N j = Inr False"

text \<open>\<open>x.k = v\<close> on an object: in place where the key exists, at the end otherwise.\<close>

fun set_member :: "string \<Rightarrow> 'n json \<Rightarrow> 'n json \<Rightarrow> 'n json" where
  "set_member k v (JObj m) =
     JObj (if k \<in> fst ` set m then map (\<lambda>(j, w). (j, if j = k then v else w)) m else m @ [(k, v)])"
| "set_member k v j = j"

lemma map_of_override:
  "map_of (map (\<lambda>(j, w). (j, if j = k then v else w)) m) i =
     (if i = k \<and> i \<in> fst ` set m then Some v else map_of m i)"
  by (induction m) (auto, force+)

lemma map_of_set_member:
  "member i (set_member k v (JObj m)) = Inr (if i = k then Some v else map_of m i)"
proof -
  have "i \<notin> fst ` set m \<Longrightarrow> map_of m i = None" by (simp add: map_of_eq_None_iff)
  then show ?thesis by (auto simp: map_of_override map_add_def split: option.split)
qed

lemma member_obj: "member k j = Inr (Some v) \<Longrightarrow> \<exists>m. j = JObj m \<and> map_of m k = Some v"
  by (cases j) simp_all

end
