(* ===== verification/Sites.thy ===== *)
theory Sites
  imports Check_Stats Config Json
begin

text \<open>
  The data the processes of Jetmon exchange: the state of a monitored site on its way from the
  database through the master, a worker and back (\<open>lib/jetmon.js\<close>, \<open>lib/httpcheck.js\<close>), and the
  messages between the master and its workers.
\<close>

section \<open>Constants\<close>

definition SITE_DOWN :: int where "SITE_DOWN = 0"
definition SITE_RUNNING :: int where "SITE_RUNNING = 1"
definition SITE_CONFIRMED_DOWN :: int where "SITE_CONFIRMED_DOWN = 2"

definition HOST_OFFLINE :: int where "HOST_OFFLINE = 0"
definition HOST_ONLINE :: int where "HOST_ONLINE = 1"

definition JETMON_CHECK :: int where "JETMON_CHECK = 1"
definition VERIFLIER_CHECK :: int where "VERIFLIER_CHECK = 2"

definition SUICIDE_SIGNAL :: int where "SUICIDE_SIGNAL = 1"
definition EXIT_MAXRAMUSAGE :: int where "EXIT_MAXRAMUSAGE = 2"
definition EXIT_MAXCHECKS :: int where "EXIT_MAXCHECKS = 3"

lemmas [const_defs] =
  SITE_DOWN_def SITE_RUNNING_def SITE_CONFIRMED_DOWN_def HOST_OFFLINE_def HOST_ONLINE_def
  JETMON_CHECK_def VERIFLIER_CHECK_def SUICIDE_SIGNAL_def EXIT_MAXRAMUSAGE_def EXIT_MAXCHECKS_def

lemma constants_differ [simp]:
  "SITE_DOWN \<noteq> SITE_RUNNING" "SITE_RUNNING \<noteq> SITE_DOWN"
  "SITE_DOWN \<noteq> SITE_CONFIRMED_DOWN" "SITE_CONFIRMED_DOWN \<noteq> SITE_DOWN"
  "SITE_RUNNING \<noteq> SITE_CONFIRMED_DOWN" "SITE_CONFIRMED_DOWN \<noteq> SITE_RUNNING"
  "JETMON_CHECK \<noteq> VERIFLIER_CHECK" "VERIFLIER_CHECK \<noteq> JETMON_CHECK"
  by (simp_all add: const_defs)

section \<open>Sites\<close>

text \<open>
  A value that is stored in an entry of \<open>checks\<close>.  A veriflier's answer is stored as it comes: a member
  is an integer, or undefined, or anything else, which is kept as its JSON text together with what
  the language finds of it in \<open>0 == v\<close> (the comparison can throw); the program uses no more of it.
\<close>

datatype jsval = Whole int | Undefined | Other string "js_error + bool"

text \<open>\<open>HOST_OFFLINE == v\<close>.\<close>

fun found_offline :: "jsval \<Rightarrow> js_error + bool" where
  "found_offline (Whole i) = Inr (HOST_OFFLINE = i)"
| "found_offline Undefined = Inr False"
| "found_offline (Other t z) = z"

text \<open>One entry of \<open>checks\<close>: a check by this host or by a veriflier.\<close>

record check =
  check_type :: int
  check_host :: string
  check_status :: jsval
  check_rtt :: jsval
  check_code :: jsval
  check_error_code :: jsval

text \<open>
  The fields a site object and an object of the veriflier queue have in common.  Times are
  milliseconds; \<open>lastCheck\<close> is undefined until the first check.
\<close>

record server =
  blog_id :: nat
  monitor_url :: string
  lastCheck :: "int option"
  last_status_change :: int
  checks :: "check list"

record site = server +
  site_status :: int
  oldStatus :: int
  processed :: bool

text \<open>A row of the batch query; a NULL timestamp is \<open>None\<close>.\<close>

record row =
  row_blog_id :: nat
  row_monitor_url :: string
  row_site_status :: int
  row_last_status_change :: "int option"

definition same_site :: "'a server_scheme \<Rightarrow> 'b server_scheme \<Rightarrow> bool" where
  "same_site a b = (blog_id a = blog_id b \<and> monitor_url a = monitor_url b)"

section \<open>Messages\<close>

record totals =
  total_down :: int
  total_running :: int
  total_confirmed :: int

definition zero_totals :: totals where
  "zero_totals = \<lparr>total_down = 0, total_running = 0, total_confirmed = 0\<rparr>"

text \<open>\<open>workerTotals[ status ]++\<close>.\<close>

definition count_status :: "int \<Rightarrow> totals \<Rightarrow> totals" where
  "count_status st t =
     (if st = SITE_DOWN then t\<lparr>total_down := total_down t + 1\<rparr>
      else if st = SITE_RUNNING then t\<lparr>total_running := total_running t + 1\<rparr>
      else if st = SITE_CONFIRMED_DOWN then t\<lparr>total_confirmed := total_confirmed t + 1\<rparr>
      else t)"

definition totals_sum :: "totals \<Rightarrow> int" where
  "totals_sum t = total_down t + total_running t + total_confirmed t"

record worker_report =
  queueLength :: nat
  report_pointer :: nat
  report_activeChecks :: int
  report_totalChecks :: int
  memoryUsage :: int
  uptime :: int

text \<open>What the master sends a worker, and what a worker sends the master.\<close>

datatype worker_request =
    Queue_add "site list"
  | Evaporate
  | Config_update
  | Other_request nat

datatype worker_msg =
    Totals totals
  | Notify_still_down site
  | Notify_status_change site
  | Stop_work nat
  | Send_work nat
  | Recheck site
  | Stats nat worker_report check_stats
  | Unknown_request nat

text \<open>
  What a payload must be for a worker to take it on: some sites, none of them processed and each with
  checks only in which a worker of this host found it down.
\<close>

definition by_workers :: "site \<Rightarrow> bool" where
  "by_workers sv \<longleftrightarrow> (\<forall>c \<in> set (checks sv). check_type c = JETMON_CHECK \<and> check_status c = Whole SITE_DOWN)"

definition pristine :: "site \<Rightarrow> bool" where
  "pristine sv \<longleftrightarrow> \<not> processed sv \<and> by_workers sv"

definition fresh_payload :: "site list \<Rightarrow> bool" where
  "fresh_payload d \<longleftrightarrow> d \<noteq> [] \<and> (\<forall>s \<in> set d. pristine s)"

end
