(* ===== verification/Database.thy ===== *)
theory Database
  imports Sites
begin

text \<open>
  \<open>lib/database.js\<close>: the cursor over the buckets of sites this host is responsible for, the queries,
  the choice of a connection pool with its failover, and the committing of updates.  The MySQL
  driver is an input: what \<open>getConnection\<close> answers for a pool pattern and what the query answers.
\<close>

section \<open>State and effects\<close>

record db =
  fromBucketNo :: int
  toBucketNo :: int
  reloadPending :: bool
  arrUpdateStatements :: "string list"

definition boot_db :: "config \<Rightarrow> db" where
  "boot_db c = \<lparr>fromBucketNo = BUCKET_NO_MIN c,
     toBucketNo = BUCKET_NO_MIN c + BATCH_SIZE c - 1,
     reloadPending = False, arrUpdateStatements = []\<rparr>"

text \<open>The calls on the pool: a reload of its configuration, a query sent to the first pool pattern.\<close>

datatype db_call = Pool_reload | Pool_query string string

text \<open>\<open>updateConfig\<close>: the answer of \<open>pool.config.update\<close>.\<close>

definition updateConfig :: "bool \<Rightarrow> db \<Rightarrow> db" where
  "updateConfig updated d = (if updated then d\<lparr>reloadPending := True\<rparr> else d)"

definition reload_if_pending :: "db \<Rightarrow> db \<times> db_call list" where
  "reload_if_pending d =
     (if reloadPending d then (d\<lparr>reloadPending := False\<rparr>, [Pool_reload]) else (d, []))"

definition poolPrefix :: "string \<Rightarrow> string" where
  "poolPrefix sqlQuery =
     (if contains ''jetpack_'' sqlQuery then ''MISC_''
      else if contains ''languages'' sqlQuery then ''GLOBAL_''
      else ''USER_'')"

definition execQuery :: "string \<Rightarrow> db \<Rightarrow> db \<times> db_call list" where
  "execQuery sqlQuery d =
     (let (d1, calls) = reload_if_pending d
      in (d1, calls @ [Pool_query (poolPrefix sqlQuery @ ''SLAVE*'') sqlQuery]))"

text \<open>
  The callback's arguments.  A pool refuses with an error or answers the query with an error or
  rows; \<open>cluster\<close> gives the answer for each pattern.
\<close>

datatype 'r pool_answer = Refused string | Answered "string option" "'r option"

definition execQuery_result ::
  "(string \<Rightarrow> 'r list pool_answer) \<Rightarrow> string \<Rightarrow> string option \<times> 'r list option" where
  "execQuery_result cluster sqlQuery =
     (case cluster (poolPrefix sqlQuery @ ''SLAVE*'') of
        Answered err rows \<Rightarrow> (err, rows)
      | Refused e \<Rightarrow>
          (case cluster (poolPrefix sqlQuery @ ''FAILOVER*'') of
             Answered err rows \<Rightarrow> (err, rows)
           | Refused e' \<Rightarrow> (Some (''error connecting to a remote failover db: '' @ e'), Some [])))"

section \<open>The batches\<close>

definition batch_query :: "config \<Rightarrow> int \<Rightarrow> int \<Rightarrow> string" where
  "batch_query c lo hi =
     ''SELECT `blog_id`, `monitor_url`, `site_status`, `last_status_change` FROM `jetpack_monitor_sites` WHERE `bucket_no` >= ''
     @ show_int lo @ '' AND `bucket_no` <= '' @ show_int hi @ '' AND `monitor_active` = 1''
     @ (if USE_VARIABLE_CHECK_INTERVALS c
        then '' AND MOD(MINUTE(NOW()) + `jetpack_monitor_site_id`, `check_interval`) = 0;''
        else [])"

text \<open>
  \<open>getNextBatch\<close> sends the query for the current window, moves the window on, and returns whether
  it is back at the first bucket.
\<close>

definition advance_window :: "config \<Rightarrow> db \<Rightarrow> db" where
  "advance_window c d =
     (let f = fromBucketNo d + BATCH_SIZE c;
          f = (if f \<ge> BUCKET_NO_MAX c then BUCKET_NO_MIN c else f);
          t = f + BATCH_SIZE c - 1;
          t = (if t > BUCKET_NO_MAX c then BUCKET_NO_MAX c else t)
      in d\<lparr>fromBucketNo := f, toBucketNo := t\<rparr>)"

definition getNextBatch :: "config \<Rightarrow> db \<Rightarrow> bool \<times> db \<times> db_call list" where
  "getNextBatch c d =
     (let (d1, calls) = execQuery (batch_query c (fromBucketNo d) (toBucketNo d)) d;
          d2 = advance_window c d1
      in (BUCKET_NO_MIN c = fromBucketNo d2, d2, calls))"

text \<open>
  When the query is answered: an error moves the window back by one batch and ends there; rows go
  to the caller's function.
\<close>

definition batch_answer :: "config \<Rightarrow> string option \<times> 'r list option \<Rightarrow> db \<Rightarrow> db \<times> 'r list option option" where
  "batch_answer c res d =
     (case fst res of
        Some e \<Rightarrow>
          (d\<lparr>fromBucketNo := fromBucketNo d - BATCH_SIZE c, toBucketNo := toBucketNo d - BATCH_SIZE c\<rparr>, None)
      | None \<Rightarrow> (d, Some (snd res)))"

section \<open>Updates\<close>

definition update_query :: "nat \<Rightarrow> string \<Rightarrow> int \<Rightarrow> string" where
  "update_query blog url st =
     ''UPDATE `jetpack_monitor_sites` SET `site_status`='' @ show_int st
     @ '', `last_status_change`=NOW() WHERE `blog_id`='' @ show_nat blog
     @ '' AND `monitor_url`='' @ [CHR 0x27] @ url @ [CHR 0x27]"

definition updateSite :: "nat \<Rightarrow> string \<Rightarrow> int \<Rightarrow> db \<Rightarrow> db \<times> db_call list" where
  "updateSite blog url st d = execQuery (update_query blog url st) d"

text \<open>
  \<open>commitUpdates\<close>: the new state, the statement sent to the master pool and whether the caller's
  function was called.  The answer of the pool is an input.
\<close>

datatype commit_answer = No_connection | Query_failed | Committed

definition commitUpdates :: "bool \<Rightarrow> commit_answer \<Rightarrow> db \<Rightarrow> db \<times> db_call list \<times> bool" where
  "commitUpdates has_callback ans d =
     (if arrUpdateStatements d = [] then (d, [], has_callback)
      else
        let (d1, calls) = reload_if_pending d
        in case ans of
             No_connection \<Rightarrow> (d1, calls, has_callback)
           | Query_failed \<Rightarrow>
               (d1, calls @ [Pool_query ''MISC_MASTER'' (concat (arrUpdateStatements d1))], has_callback)
           | Committed \<Rightarrow>
               (d1\<lparr>arrUpdateStatements := []\<rparr>,
                calls @ [Pool_query ''MISC_MASTER'' (concat (arrUpdateStatements d1))], has_callback))"

section \<open>Dates\<close>

record date =
  getFullYear :: nat
  getMonth :: nat
  getDate :: nat
  getHours :: nat
  getMinutes :: nat
  getSeconds :: nat

definition pad2 :: "nat \<Rightarrow> string" where
  "pad2 n = (if 1 = length (show_nat n) then ''0'' @ show_nat n else show_nat n)"

text \<open>
  The month's test reads \<open>length\<close> of a number, which is undefined and never equal to 1, so its
  first branch is not taken.
\<close>

definition number_length :: "nat \<Rightarrow> nat option" where
  "number_length n = None"

definition getNowDateTime :: "date \<Rightarrow> string" where
  "getNowDateTime now =
     show_nat (getFullYear now) @ ''-''
     @ (if Some 1 = number_length (1 + getMonth now) then ''0'' @ show_nat (1 + getMonth now)
        else show_nat (1 + getMonth now)) @ ''-''
     @ pad2 (getDate now) @ '' '' @ pad2 (getHours now) @ '':''
     @ pad2 (getMinutes now) @ '':'' @ pad2 (getSeconds now)"

section \<open>Pools\<close>

lemma contains_appendI2: "contains p t \<Longrightarrow> contains p (s @ t)"
  by (induction s) simp_all

lemma poolPrefix_batch: "poolPrefix (batch_query c lo hi) = ''MISC_''"
proof -
  have "contains ''jetpack_'' (''SELECT `blog_id`, `monitor_url`, `site_status`, `last_status_change` FROM `jetpack_monitor_sites` WHERE `bucket_no` >= '')"
    by simp
  then have "contains ''jetpack_'' (batch_query c lo hi)"
    unfolding batch_query_def by (rule contains_appendI1)
  then show ?thesis by (simp add: poolPrefix_def)
qed

lemma poolPrefix_update: "poolPrefix (update_query b u st) = ''MISC_''"
proof -
  have "contains ''jetpack_'' (''UPDATE `jetpack_monitor_sites` SET `site_status`='')"
    by simp
  then have "contains ''jetpack_'' (update_query b u st)"
    unfolding update_query_def by (rule contains_appendI1)
  then show ?thesis by (simp add: poolPrefix_def)
qed

lemma reload_frame [simp]:
  "fromBucketNo (fst (reload_if_pending d)) = fromBucketNo d"
  "toBucketNo (fst (reload_if_pending d)) = toBucketNo d"
  "reloadPending (fst (reload_if_pending d)) = False"
  "arrUpdateStatements (fst (reload_if_pending d)) = arrUpdateStatements d"
  by (simp_all add: reload_if_pending_def)

lemma execQuery_frame [simp]:
  "fromBucketNo (fst (execQuery q d)) = fromBucketNo d"
  "toBucketNo (fst (execQuery q d)) = toBucketNo d"
  "reloadPending (fst (execQuery q d)) = False"
  by (simp_all add: execQuery_def Let_def split_beta)

definition queries :: "db_call list \<Rightarrow> (string \<times> string) list" where
  "queries calls = concat (map (\<lambda>x. case x of Pool_query p q \<Rightarrow> [(p, q)] | Pool_reload \<Rightarrow> []) calls)"

lemma queries_execQuery:
  "queries (snd (execQuery q d)) = [(poolPrefix q @ ''SLAVE*'', q)]"
  by (simp add: execQuery_def reload_if_pending_def queries_def Let_def)

section \<open>Rounds over the buckets\<close>

text \<open>
  What the master relies on: a source of windows over an integer range.  From a starting state
  some number of fetches makes one round: only the last says that the round is over, the windows
  follow each other without gap or overlap, and the source is at a start again.  So any number
  of rounds fetches each bucket of the range that number of times.
\<close>

fun fetches :: "('s \<Rightarrow> bool \<times> 's) \<Rightarrow> ('s \<Rightarrow> int \<times> int) \<Rightarrow> nat \<Rightarrow> 's \<Rightarrow> ((int \<times> int) \<times> bool) list \<times> 's" where
  "fetches fetch window 0 s = ([], s)"
| "fetches fetch window (Suc n) s =
     (let (fin, s1) = fetch s; (ws, s2) = fetches fetch window n s1
      in ((window s, fin) # ws, s2))"

definition buckets :: "((int \<times> int) \<times> bool) list \<Rightarrow> int list" where
  "buckets ws = concat (map (\<lambda>((lo, hi), fin). [lo..hi]) ws)"

lemma buckets_simps [simp]:
  "buckets [] = []" "buckets (((lo, hi), fin) # ws) = [lo..hi] @ buckets ws"
  "buckets (ws @ vs) = buckets ws @ buckets vs"
  by (simp_all add: buckets_def)

lemma fetches_add:
  "fetches fetch window (m + n) s =
     (let (ws, s1) = fetches fetch window m s; (vs, s2) = fetches fetch window n s1 in (ws @ vs, s2))"
  by (induction m arbitrary: s) (simp_all add: Let_def split_beta)

locale batch_source =
  fixes fetch :: "'s \<Rightarrow> bool \<times> 's"
    and window :: "'s \<Rightarrow> int \<times> int"
    and start :: "'s \<Rightarrow> bool"
    and per_round :: "'s \<Rightarrow> nat"
    and range :: "'s \<Rightarrow> int list"
  assumes round: "start s \<Longrightarrow> fetches fetch window (per_round s) s = (ws, s') \<Longrightarrow>
      start s' \<and> per_round s' = per_round s \<and> range s' = range s \<and> buckets ws = range s \<and>
      map snd ws = replicate (per_round s - 1) False @ [True]"
begin

lemma rounds:
  "start s \<Longrightarrow> fetches fetch window (k * per_round s) s = (ws, s') \<Longrightarrow>
   start s' \<and> per_round s' = per_round s \<and> range s' = range s \<and> buckets ws = concat (replicate k (range s)) \<and>
   map snd ws = concat (replicate k (replicate (per_round s - 1) False @ [True]))"
proof (induction k arbitrary: s ws s')
  case (Suc k)
  obtain ws1 s1 where 1: "fetches fetch window (per_round s) s = (ws1, s1)" by (metis surj_pair)
  note r = round [OF Suc.prems(1) 1]
  obtain ws2 s2 where 2: "fetches fetch window (k * per_round s1) s1 = (ws2, s2)" by (metis surj_pair)
  have "ws = ws1 @ ws2" "s' = s2"
    using Suc.prems(2) 1 2 r by (simp_all add: fetches_add)
  with Suc.IH [OF _ 2] r show ?case by simp
qed simp

end

text \<open>The cursor of \<open>database.js\<close> as such a source; the configuration is constant during a round.\<close>

definition fetch_batch :: "config \<times> db \<Rightarrow> bool \<times> config \<times> db" where
  "fetch_batch s = (let (fin, d, calls) = getNextBatch (fst s) (snd s) in (fin, fst s, d))"

definition db_window :: "config \<times> db \<Rightarrow> int \<times> int" where
  "db_window s = (fromBucketNo (snd s), toBucketNo (snd s))"

definition at_start :: "config \<times> db \<Rightarrow> bool" where
  "at_start s = (case s of (c, d) \<Rightarrow>
     0 < BATCH_SIZE c \<and> BUCKET_NO_MIN c < BUCKET_NO_MAX c \<and>
     fromBucketNo d = BUCKET_NO_MIN c \<and>
     toBucketNo d = min (BUCKET_NO_MIN c + BATCH_SIZE c - 1) (BUCKET_NO_MAX c))"

definition batches_per_round :: "config \<times> db \<Rightarrow> nat" where
  "batches_per_round s =
     nat ((BUCKET_NO_MAX (fst s) - BUCKET_NO_MIN (fst s) + BATCH_SIZE (fst s) - 1) div BATCH_SIZE (fst s))"

definition bucket_range :: "config \<times> db \<Rightarrow> int list" where
  "bucket_range s = (let c = fst s in
     [BUCKET_NO_MIN c ..
        (if BATCH_SIZE c dvd BUCKET_NO_MAX c - BUCKET_NO_MIN c then BUCKET_NO_MAX c - 1
         else BUCKET_NO_MAX c)])"

lemma getNextBatch_simps:
  "fst (getNextBatch c d) = (BUCKET_NO_MIN c = fromBucketNo (advance_window c d))"
  "fromBucketNo (fst (snd (getNextBatch c d))) = fromBucketNo (advance_window c d)"
  "toBucketNo (fst (snd (getNextBatch c d))) = toBucketNo (advance_window c d)"
  "queries (snd (snd (getNextBatch c d))) =
     [(''MISC_SLAVE*'', batch_query c (fromBucketNo d) (toBucketNo d))]"
  using queries_execQuery [of "batch_query c (fromBucketNo d) (toBucketNo d)" d]
  by (simp_all add: getNextBatch_def advance_window_def Let_def split_beta poolPrefix_batch)

lemma fetch_batch_simps:
  "fetch_batch (c, d) = (BUCKET_NO_MIN c = fromBucketNo (advance_window c d), c, fst (snd (getNextBatch c d)))"
  by (simp add: fetch_batch_def split_beta getNextBatch_simps Let_def)

text \<open>
  From the window that starts at \<open>f\<close>, with \<open>n + 1\<close> windows to go.
\<close>

lemma round_from:
  assumes B: "0 < BATCH_SIZE c" and M: "BUCKET_NO_MIN c < BUCKET_NO_MAX c"
    and "fromBucketNo d = f" and "toBucketNo d = min (f + BATCH_SIZE c - 1) (BUCKET_NO_MAX c)"
    and "BUCKET_NO_MIN c \<le> f"
    and "int n * BATCH_SIZE c < BUCKET_NO_MAX c - f" "BUCKET_NO_MAX c - f \<le> int (Suc n) * BATCH_SIZE c"
    and "fetches fetch_batch db_window (Suc n) (c, d) = (ws, s')"
  shows "at_start s' \<and> fst s' = c \<and> map snd ws = replicate n False @ [True] \<and>
     buckets ws = [f .. (if BUCKET_NO_MAX c - f = int (Suc n) * BATCH_SIZE c then BUCKET_NO_MAX c - 1
                         else BUCKET_NO_MAX c)]"
  using assms(3-)
proof (induction n arbitrary: d f ws)
  case 0
  let ?d = "fst (snd (getNextBatch c d))"
  have "fromBucketNo ?d = BUCKET_NO_MIN c"
    using 0 by (simp add: getNextBatch_simps advance_window_def Let_def)
  moreover have "toBucketNo ?d = min (BUCKET_NO_MIN c + BATCH_SIZE c - 1) (BUCKET_NO_MAX c)"
    using 0 by (simp add: getNextBatch_simps advance_window_def Let_def)
  ultimately have "at_start (c, ?d)" using B M by (simp add: at_start_def)
  moreover have "ws = [((f, toBucketNo d), True)]" "s' = (c, ?d)"
    using 0 by (auto simp: fetch_batch_simps db_window_def advance_window_def Let_def)
  moreover have "toBucketNo d =
      (if BUCKET_NO_MAX c - f = int (Suc 0) * BATCH_SIZE c then BUCKET_NO_MAX c - 1 else BUCKET_NO_MAX c)"
    using 0 by (auto simp: min_def)
  ultimately show ?case by simp
next
  case (Suc n)
  let ?f = "f + BATCH_SIZE c"
  let ?d = "fst (snd (getNextBatch c d))"
  have lt: "?f < BUCKET_NO_MAX c"
  proof -
    have "BATCH_SIZE c \<le> int (Suc n) * BATCH_SIZE c" using B by (simp add: distrib_right)
    with Suc.prems(4) show ?thesis by linarith
  qed
  have d: "fromBucketNo ?d = ?f" "toBucketNo ?d = min (?f + BATCH_SIZE c - 1) (BUCKET_NO_MAX c)"
    using lt Suc.prems by (auto simp: getNextBatch_simps advance_window_def Let_def)
  have step: "fetch_batch (c, d) = (False, c, ?d)"
    using lt Suc.prems(1,3) B by (auto simp: fetch_batch_simps advance_window_def Let_def)
  obtain vs r where vs': "fetches fetch_batch db_window (Suc n) (c, ?d) = (vs, r)"
    by (metis surj_pair)
  have "(db_window (c, d), False) # vs = ws \<and> r = s'"
    using Suc.prems(6) unfolding fetches.simps(2) [of _ _ "Suc n"] step by (simp add: vs' del: fetches.simps)
  then have ws: "ws = ((f, toBucketNo d), False) # vs"
      and vs: "fetches fetch_batch db_window (Suc n) (c, ?d) = (vs, s')"
    using vs' Suc.prems(1) by (auto simp: db_window_def simp del: fetches.simps)
  have IH: "at_start s' \<and> fst s' = c \<and> map snd vs = replicate n False @ [True] \<and>
     buckets vs = [?f .. (if BUCKET_NO_MAX c - ?f = int (Suc n) * BATCH_SIZE c then BUCKET_NO_MAX c - 1
                          else BUCKET_NO_MAX c)]"
    using Suc.prems B by (intro Suc.IH [OF d _ _ _ vs]) (simp_all add: algebra_simps)
  have cond: "BUCKET_NO_MAX c - ?f = int (Suc n) * BATCH_SIZE c \<longleftrightarrow>
      BUCKET_NO_MAX c - f = int (Suc (Suc n)) * BATCH_SIZE c"
    by (auto simp: algebra_simps)
  have "toBucketNo d = ?f - 1" using Suc.prems lt by simp
  then have "buckets ws = [f .. ?f - 1] @ buckets vs" by (simp add: ws)
  also have "\<dots> = [f .. (if BUCKET_NO_MAX c - f = int (Suc (Suc n)) * BATCH_SIZE c then BUCKET_NO_MAX c - 1
                          else BUCKET_NO_MAX c)]"
    using IH cond lt B by (simp only: conj_commute) (auto intro!: upto_split1 [symmetric])
  finally show ?case using IH ws by simp
qed

lemma db_round:
  assumes "at_start s" and "fetches fetch_batch db_window (batches_per_round s) s = (ws, s')"
  shows "at_start s' \<and> batches_per_round s' = batches_per_round s \<and> bucket_range s' = bucket_range s \<and>
     buckets ws = bucket_range s \<and> map snd ws = replicate (batches_per_round s - 1) False @ [True]"
proof -
  obtain c d where s: "s = (c, d)" by force
  define B M where "B = BATCH_SIZE c" and "M = BUCKET_NO_MAX c - BUCKET_NO_MIN c"
  have a: "0 < B" "0 < M" using assms(1) by (auto simp: at_start_def s B_def M_def)
  define q where "q = (M - 1) div B"
  have "0 \<le> q" using a by (simp add: q_def pos_imp_zdiv_nonneg_iff)
  then obtain n where n: "q = int n" by (metis nonneg_int_cases)
  have "M - 1 + B = M + B - 1" by simp
  then have "(M + B - 1) div B = q + 1"
    using a unfolding q_def by (metis div_add_self2 less_irrefl)
  then have b: "batches_per_round s = Suc n"
    using n by (simp add: batches_per_round_def s B_def M_def nat_add_distrib)
  have "M - 1 = B * q + (M - 1) mod B" by (simp add: q_def)
  moreover have "0 \<le> (M - 1) mod B" "(M - 1) mod B < B" using a by simp_all
  ultimately have r: "int n * B < M" "M \<le> int (Suc n) * B"
    unfolding n by (simp_all add: algebra_simps)
  have dvd: "B dvd M \<longleftrightarrow> M = int (Suc n) * B"
  proof
    assume "B dvd M"
    then obtain k where k: "M = B * k" by (elim dvdE)
    with r a have "int n < k" "k \<le> int (Suc n)" by (simp_all add: mult.commute [of B])
    then have "k = int (Suc n)" by simp
    with k show "M = int (Suc n) * B" by simp
  qed simp
  have res: "at_start s' \<and> fst s' = c \<and> map snd ws = replicate n False @ [True] \<and>
     buckets ws = [BUCKET_NO_MIN c .. (if M = int (Suc n) * B then BUCKET_NO_MAX c - 1 else BUCKET_NO_MAX c)]"
  proof -
    have st: "fromBucketNo d = BUCKET_NO_MIN c"
        "toBucketNo d = min (BUCKET_NO_MIN c + BATCH_SIZE c - 1) (BUCKET_NO_MAX c)"
        "0 < BATCH_SIZE c" "BUCKET_NO_MIN c < BUCKET_NO_MAX c"
      using assms(1) by (simp_all add: at_start_def s)
    have "fetches fetch_batch db_window (Suc n) (c, d) = (ws, s')"
      using assms(2) by (simp only: b) (simp only: s)
    from round_from [OF st(3,4,1,2) order_refl _ _ this] r
    show ?thesis by (simp add: B_def M_def)
  qed
  then show ?thesis
    using b dvd by (auto simp: batches_per_round_def bucket_range_def s B_def M_def Let_def)
qed

interpretation cursor: batch_source fetch_batch db_window at_start batches_per_round bucket_range
  by unfold_locales (rule db_round)

end
