(* ===== verification/Wpcom.thy ===== *)
theory Wpcom
  imports Sites Database
begin

text \<open>
  \<open>lib/wpcom.js\<close>: the notification of WPCOM about a site's status, and how the master repeats one that
  failed (the callbacks around \<open>wpcom.notifyStatusChange\<close> in \<open>lib/jetmon.js\<close>).  The HTTPS client is an
  input: the events of a request in their order.  \<open>JSON.parse\<close> is given by the caller as the value of
  \<open>success\<close> in the parsed text, or \<open>None\<close> where it throws.
\<close>

section \<open>The notification\<close>

text \<open>
  The object sent.  A date is its milliseconds; the Date of an undefined time is invalid and
  prints as null, like the explicit null of a status that never changed.
\<close>

record notice =
  n_blog_id :: nat
  n_monitor_url :: string
  n_status_id :: int
  n_last_check :: "int option"
  n_last_status_change :: "int option"
  n_checks :: "check list"
  n_token :: string

definition notice_of :: "config \<Rightarrow> 'a server_scheme \<Rightarrow> int \<Rightarrow> notice" where
  "notice_of c srv st = \<lparr>
     n_blog_id = blog_id srv, n_monitor_url = monitor_url srv, n_status_id = st,
     n_last_check = lastCheck srv,
     n_last_status_change = (if last_status_change srv \<noteq> 0 then Some (last_status_change srv) else None),
     n_checks = checks srv, n_token = AUTH_TOKEN c\<rparr>"

text \<open>
  The request: a GET of an address with the object's text in it.  A character of the text, up to U+00FF
  here, is itself or its UTF-8 bytes in hexadecimal.
\<close>

definition unreserved :: "char \<Rightarrow> bool" where
  "unreserved ch = (let n = (of_char ch :: nat) in
     48 \<le> n \<and> n \<le> 57 \<or> 65 \<le> n \<and> n \<le> 90 \<or> 97 \<le> n \<and> n \<le> 122 \<or> n \<in> {33, 39, 40, 41, 42, 45, 46, 95, 126})"

definition hex_digit :: "nat \<Rightarrow> char" where
  "hex_digit n = char_of (if n < 10 then 48 + n else 55 + n)"

definition percent :: "nat \<Rightarrow> string" where
  "percent n = [CHR ''%'', hex_digit (n div 16), hex_digit (n mod 16)]"

definition encode_char :: "char \<Rightarrow> string" where
  "encode_char ch =
     (let n = of_char ch
      in if unreserved ch then [ch]
         else if n < 128 then percent n
         else percent (192 + n div 64) @ percent (128 + n mod 64))"

definition encodeURIComponent :: "string \<Rightarrow> string" where
  "encodeURIComponent s = concat (map encode_char s)"

record wpcom_request =
  wr_hostname :: string
  wr_port :: nat
  wr_path :: string
  wr_method :: string
  wr_rejectUnauthorized :: bool

definition wpcom_options :: "(notice \<Rightarrow> string) \<Rightarrow> notice \<Rightarrow> wpcom_request" where
  "wpcom_options stringify o_request =
     \<lparr>wr_hostname = ''jetpack.wordpress.com'', wr_port = 443,
      wr_path = ''/jetmon/?data='' @ encodeURIComponent (stringify o_request),
      wr_method = ''GET'', wr_rejectUnauthorized = False\<rparr>"

text \<open>
  \<open>notifyStatusChange\<close>: the update of the site's row where the configuration asks for it, and the
  request.
\<close>

definition notifyStatusChange ::
  "config \<Rightarrow> 'a server_scheme \<Rightarrow> int \<Rightarrow> db \<Rightarrow> db \<times> db_call list \<times> notice" where
  "notifyStatusChange c srv st d =
     (let (d1, calls) = (if DB_UPDATES_ENABLE c then updateSite (blog_id srv) (monitor_url srv) st d else (d, []))
      in (d1, calls, notice_of c srv st))"

section \<open>Its callbacks\<close>

datatype net_event = Data string | Request_error | Request_timeout

text \<open>
  The value of \<open>reply.success\<close> at each call of \<open>callBack\<close>: one call per chunk of the response's body,
  each parsed on its own, and one for an error and for a timeout.
\<close>

fun reply_successes :: "(string \<Rightarrow> bool option) \<Rightarrow> net_event list \<Rightarrow> bool list" where
  "reply_successes parse [] = []"
| "reply_successes parse (Data chunk # es) =
     (case parse chunk of Some b \<Rightarrow> b | None \<Rightarrow> False) # reply_successes parse es"
| "reply_successes parse (Request_error # es) = False # reply_successes parse es"
| "reply_successes parse (Request_timeout # es) = False # reply_successes parse es"

text \<open>
  The callback the master passes the first time: a failure notifies once more, with a callback that
  only logs.  The object notified about is shared with the queue of the verifliers, so each call
  comes with the object as it is by then.  The notifications made for one report, the first and
  its repetitions, while the configuration stays as it is:
\<close>

definition notifications ::
  "config \<Rightarrow> 'a server_scheme \<Rightarrow> int \<Rightarrow> (string \<Rightarrow> bool option) \<Rightarrow> ('a server_scheme \<times> net_event) list \<Rightarrow> notice list" where
  "notifications c srv st parse es =
     notice_of c srv st #
       map (\<lambda>(now, ok). notice_of c now st)
         (filter (\<lambda>(now, ok). \<not> ok) (zip (map fst es) (reply_successes parse (map snd es))))"

lemma length_reply_successes [simp]: "length (reply_successes parse es) = length es"
  by (induction parse es rule: reply_successes.induct) simp_all

lemma length_failures:
  "length bs = length xs \<Longrightarrow> length (filter (\<lambda>(x, ok). \<not> ok) (zip xs bs)) = count_list bs False"
  by (induction bs xs rule: list_induct2) auto

text \<open>
  A notification is repeated once for every failing call of its callback and never otherwise, and
  every repetition reports the same status, of the site as it is known by then.
\<close>

theorem notification_repeated_per_failure:
  "length (notifications c srv st parse es) = Suc (count_list (reply_successes parse (map snd es)) False) \<and>
   set (notifications c srv st parse es) \<subseteq> (\<lambda>now. notice_of c now st) ` insert srv (set (map fst es)) \<and>
   n_status_id ` set (notifications c srv st parse es) = {st}"
proof -
  have "n_status_id (notice_of c x st) = st" for x :: "'a server_scheme"
    by (simp add: notice_of_def)
  moreover have "(now, ok) \<in> set (zip (map fst es) bs) \<Longrightarrow> now \<in> set (map fst es)" for now ok bs
    by (rule set_zip_leftD)
  then have "set (notifications c srv st parse es) \<subseteq> (\<lambda>now. notice_of c now st) ` insert srv (set (map fst es))"
    unfolding notifications_def by fastforce
  ultimately show ?thesis
    by (auto simp: notifications_def length_failures)
qed

text \<open>
  The callback runs once per chunk of the body, not once per response: a successful reply that
  arrives in \<open>k\<close> pieces that are no JSON texts of their own counts as \<open>k\<close> failures and is repeated
  \<open>k\<close> times.
\<close>

theorem chunked_reply_repeats:
  assumes "\<forall>x \<in> set chunks. parse x = None"
  shows "length (notifications c srv st parse (map (\<lambda>x. (srv, Data x)) chunks)) = Suc (length chunks)"
proof -
  have "reply_successes parse (map Data chunks) = replicate (length chunks) False"
    using assms by (induction chunks) auto
  moreover have "count_list (replicate n False) False = n" for n by (induction n) simp_all
  moreover have "map snd (map (\<lambda>x. (srv, Data x)) chunks) = map Data chunks" by simp
  ultimately show ?thesis by (simp add: notifications_def length_failures del: map_map)
qed

definition toy_parse :: "string \<Rightarrow> bool option" where
  "toy_parse t = (if t = ''{\"success\":true}'' then Some True else None)"

definition toy_server :: server where
  "toy_server = \<lparr>blog_id = 1, monitor_url = ''u'', lastCheck = None, last_status_change = 0, checks = []\<rparr>"

theorem chunked_reply_repeats_witness:
  "toy_parse (concat [''{\"success\"'', '':true}'']) = Some True \<and>
   length (notifications sample_config toy_server 0 toy_parse
     (map (\<lambda>x. (toy_server, Data x)) [''{\"success\"'', '':true}''])) = 3"
proof -
  have "\<forall>x \<in> set [''{\"success\"'', '':true}'']. toy_parse x = None" by (simp add: toy_parse_def)
  note rep = chunked_reply_repeats [OF this, where c = sample_config and srv = toy_server and st = 0]
  have "Suc (length [''{\"success\"'', '':true}'']) = 3" by simp
  with rep have "length (notifications sample_config toy_server 0 toy_parse
      (map (\<lambda>x. (toy_server, Data x)) [''{\"success\"'', '':true}''])) = 3"
    by (simp only:)
  moreover have "toy_parse (concat [''{\"success\"'', '':true}'']) = Some True" by (simp add: toy_parse_def)
  ultimately show ?thesis by blast
qed

end
