(* ===== verification/Master_State.thy ===== *)
theory Master_State
  imports Statsd Sites Database Wpcom
begin

text \<open>
  The state of the master process, \<open>lib/jetmon.js\<close>: its module variables, the cursor of the database
  module it calls, and the trace of everything it does to the outside, in order.  Logging is not
  part of the trace.  A process id of 0 stands for the missing id of a process that failed to
  start; the source tests both alike.
\<close>

section \<open>State\<close>

text \<open>
  An object of the veriflier queue; \<open>site_status\<close> is undefined until the site is found down.
  \<open>retry_no\<close> is the identity of the object: the number of objects made before it.
\<close>

record retry = server +
  status_id :: int
  retry_site_status :: "int option"
  offline_confirms :: int
  requests_sent :: bool
  requests_outstanding :: int
  last_activity :: int
  retry_no :: nat

text \<open>
  What the callback of a first notice to WPCOM holds on to, to send the notice again if it fails: the
  object with the status it was sent with, and the object's number where it is one of the queue's,
  which goes on changing there.
\<close>

record told = server +
  told_status :: int
  told_entry :: "nat option"

record proc =
  proc_pid :: nat
  proc_connected :: bool

datatype timer = Next_round | Update_stats | Restart_round

text \<open>A file under \<open>stats/\<close> being opened, with what the function that writes it has captured.\<close>

datatype stats_job =
    Sps_file stat_val
  | Queue_file
  | Totals_file int int int int

datatype out =
    To_worker nat worker_request
  | Fork nat
  | Disconnect nat
  | Stat stat_call
  | Db_call db_call
  | Notify notice
  | Ask_veriflier verifier "retry list"
  | Set_timer timer int
  | Open_file stats_job
  | Write_file string string
  | Console string
  | Exit int

text \<open>
  The module's variables, and what is outstanding: \<open>openNotices\<close> holds the first notices, whose callbacks
  may still be called; \<open>queriesDue\<close> counts the batch queries without an answer, and the timers are the ones set that have
  not fired (\<open>roundTimers\<close> for the next round, \<open>restartTimers\<close> for the restart of a late one).
\<close>

record master =
  conf :: config
  peerLimit :: int
  database :: db
  gCountSuccess :: int
  gCountError :: int
  gCountOffline :: int
  startTime :: int
  sitesCount :: int
  arrObjects :: "site list"
  localRetries :: "site list"
  freeWorkers :: "nat list"
  haltedWorkers :: "nat list"
  arrWorkers :: "proc list"
  workerStats :: "worker_report nobj"
  checkStats :: check_stats
  gettingSites :: bool
  inRound :: bool
  endOfRound :: bool
  roundSitesCount :: int
  queuedRetries :: "retry list"
  retryCount :: nat
  openNotices :: "told list"
  queriesDue :: nat
  roundTimers :: nat
  restartTimers :: nat
  outs :: "out list"

definition boot_master :: "config \<Rightarrow> int \<Rightarrow> master" where
  "boot_master c now = \<lparr>conf = c, peerLimit = js_or (PEER_OFFLINE_LIMIT c) 3, database = boot_db c,
     gCountSuccess = 0, gCountError = 0, gCountOffline = 0, startTime = now, sitesCount = 0,
     arrObjects = [], localRetries = [], freeWorkers = [], haltedWorkers = [], arrWorkers = [],
     workerStats = [], checkStats = [], gettingSites = False, inRound = False, endOfRound = False,
     roundSitesCount = 0, queuedRetries = [], retryCount = 0, openNotices = [],
     queriesDue = 0, roundTimers = 0, restartTimers = 0, outs = []\<rparr>"

section \<open>Effects\<close>

definition emit :: "out \<Rightarrow> master \<Rightarrow> master" where
  "emit x s = s\<lparr>outs := outs s @ [x]\<rparr>"

definition increment :: "string \<Rightarrow> int \<Rightarrow> master \<Rightarrow> master" where
  "increment metric v = emit (Stat (Increment metric (VInt v)))"

definition timing :: "string \<Rightarrow> int \<Rightarrow> master \<Rightarrow> master" where
  "timing metric v = emit (Stat (Timing metric (VInt v)))"

definition emit_calls :: "db_call list \<Rightarrow> master \<Rightarrow> master" where
  "emit_calls calls s = s\<lparr>outs := outs s @ map Db_call calls\<rparr>"

text \<open>
  \<open>wpcom.notifyStatusChange\<close> as the master calls it.
\<close>

definition notify :: "'a server_scheme \<Rightarrow> int \<Rightarrow> master \<Rightarrow> master" where
  "notify srv st s =
     (let (d, calls, n) = notifyStatusChange (conf s) srv st (database s)
      in emit (Notify n) (emit_calls calls (s\<lparr>database := d\<rparr>)))"

text \<open>
  The call with the callback that sends the notice once more: the notice is open from here on.  The
  call in the callback itself is \<open>notify\<close>; its own callback only logs.
\<close>

definition told_of :: "nat option \<Rightarrow> 'a server_scheme \<Rightarrow> int \<Rightarrow> told" where
  "told_of k srv st = \<lparr>blog_id = blog_id srv, monitor_url = monitor_url srv, lastCheck = lastCheck srv,
     last_status_change = last_status_change srv, checks = checks srv, told_status = st, told_entry = k\<rparr>"

definition announce :: "nat option \<Rightarrow> 'a server_scheme \<Rightarrow> int \<Rightarrow> master \<Rightarrow> master" where
  "announce k srv st s = notify srv st (s\<lparr>openNotices := openNotices s @ [told_of k srv st]\<rparr>)"

definition notify_again :: "nat \<Rightarrow> master \<Rightarrow> master" where
  "notify_again i s =
     (if i < length (openNotices s)
      then let o_server = openNotices s ! i in notify o_server (told_status o_server) s
      else s)"

section \<open>The pool of workers\<close>

definition getWorker :: "nat \<Rightarrow> master \<Rightarrow> proc option" where
  "getWorker p s = (if p = 0 then None else find (\<lambda>w. proc_pid w = p) (arrWorkers s))"

definition deleteWorker :: "nat \<Rightarrow> master \<Rightarrow> master" where
  "deleteWorker p s =
     (if p = 0 then s
      else
        let s1 = (if \<exists>w \<in> set (arrWorkers s). proc_pid w = p
                  then increment ''worker.delete.count'' 1
                         (s\<lparr>arrWorkers := delete_first (\<lambda>w. proc_pid w = p) (arrWorkers s),
                            workerStats := nobj_del p (workerStats s)\<rparr>)
                  else s)
        in s1\<lparr>freeWorkers := filter (\<lambda>a. a \<noteq> p) (freeWorkers s1),
              haltedWorkers := filter (\<lambda>a. a \<noteq> p) (haltedWorkers s1)\<rparr>)"

text \<open>\<open>spawnWorker\<close>, for the process id the operating system gives the new process.\<close>

definition spawnWorker :: "nat \<Rightarrow> master \<Rightarrow> master" where
  "spawnWorker p s =
     (let s1 = deleteWorker p (increment ''worker.spawn.new.count'' 1 (emit (Fork p) s))
      in s1\<lparr>arrWorkers := arrWorkers s1 @ [\<lparr>proc_pid = p, proc_connected = True\<rparr>]\<rparr>)"

text \<open>
  The worker's \<open>exit\<close> handler: the exit code (none for a signal) decides the metric and whether a
  replacement is started, whose process id is \<open>q\<close>.
\<close>

definition exit_kind :: "int option \<Rightarrow> string \<times> bool" where
  "exit_kind code =
     (if code = Some SUICIDE_SIGNAL then (''worker.die.evaporate.count'', False)
      else if code = Some EXIT_MAXRAMUSAGE then (''worker.die.memlimit.count'', True)
      else if code = Some EXIT_MAXCHECKS then (''worker.die.checklimit.count'', True)
      else if code = Some 130 then (''worker.die.code_130.count'', False)
      else (''worker.die.code_other.count'', True))"

definition worker_exit :: "nat \<Rightarrow> int option \<Rightarrow> bool \<Rightarrow> nat \<Rightarrow> master \<Rightarrow> master" where
  "worker_exit p code exitedAfterDisconnect q s =
     (if exitedAfterDisconnect then increment ''worker.die.shutdown.count'' 1 s
      else
        let (metric, respawn) = exit_kind code;
            s1 = deleteWorker p (increment metric 1 s)
        in if respawn then spawnWorker q s1 else s1)"

text \<open>\<open>ensure_worker_count\<close>; \<open>fresh i\<close> is the process id of the \<open>i\<close>-th process started here.\<close>

definition ensure_worker_count :: "(nat \<Rightarrow> nat) \<Rightarrow> bool \<Rightarrow> master \<Rightarrow> master" where
  "ensure_worker_count fresh first_usage s =
     (let max_worker_count = NUM_WORKERS (conf s);
          current_worker_count = int (length (arrWorkers s))
      in if current_worker_count < max_worker_count then
           let new_worker_count = max_worker_count - current_worker_count;
               s1 = (if \<not> first_usage then increment ''worker.spawn.missing.count'' new_worker_count s else s)
           in fold spawnWorker (map fresh [0 ..< nat new_worker_count]) s1
         else s)"

section \<open>What the helpers leave alone\<close>

text \<open>
  Two states that differ in the trace, the database cursor and the open notices only: the effects above
  make no other change.
\<close>

definition same_master :: "master \<Rightarrow> master \<Rightarrow> bool" where
  "same_master s t \<longleftrightarrow> t = s\<lparr>outs := outs t, database := database t, openNotices := openNotices t\<rparr>"

lemma same_masterD:
  assumes "same_master s t"
  shows "conf t = conf s" "peerLimit t = peerLimit s" "arrObjects t = arrObjects s"
    "localRetries t = localRetries s" "freeWorkers t = freeWorkers s" "haltedWorkers t = haltedWorkers s"
    "arrWorkers t = arrWorkers s" "workerStats t = workerStats s" "checkStats t = checkStats s"
    "gettingSites t = gettingSites s" "inRound t = inRound s" "endOfRound t = endOfRound s"
    "roundSitesCount t = roundSitesCount s" "queuedRetries t = queuedRetries s"
    "gCountSuccess t = gCountSuccess s" "gCountError t = gCountError s" "gCountOffline t = gCountOffline s"
    "sitesCount t = sitesCount s" "startTime t = startTime s" "retryCount t = retryCount s"
    "queriesDue t = queriesDue s" "roundTimers t = roundTimers s" "restartTimers t = restartTimers s"
proof -
  obtain a b d where "t = s\<lparr>outs := a, database := b, openNotices := d\<rparr>"
    using assms unfolding same_master_def by blast
  then show "conf t = conf s" "peerLimit t = peerLimit s" "arrObjects t = arrObjects s"
    "localRetries t = localRetries s" "freeWorkers t = freeWorkers s" "haltedWorkers t = haltedWorkers s"
    "arrWorkers t = arrWorkers s" "workerStats t = workerStats s" "checkStats t = checkStats s"
    "gettingSites t = gettingSites s" "inRound t = inRound s" "endOfRound t = endOfRound s"
    "roundSitesCount t = roundSitesCount s" "queuedRetries t = queuedRetries s"
    "gCountSuccess t = gCountSuccess s" "gCountError t = gCountError s" "gCountOffline t = gCountOffline s"
    "sitesCount t = sitesCount s" "startTime t = startTime s" "retryCount t = retryCount s"
    "queriesDue t = queriesDue s" "roundTimers t = roundTimers s" "restartTimers t = restartTimers s"
    by simp_all
qed

lemma same_master_refl [simp]: "same_master s s"
  by (simp add: same_master_def)

lemma same_trans:
  assumes "same_master s t" and "same_master t u"
  shows "same_master s u"
proof -
  obtain a b e where t: "t = s\<lparr>outs := a, database := b, openNotices := e\<rparr>"
    using assms(1) unfolding same_master_def by blast
  obtain c d f where u: "u = t\<lparr>outs := c, database := d, openNotices := f\<rparr>"
    using assms(2) unfolding same_master_def by blast
  show ?thesis by (simp add: same_master_def t u)
qed

lemma same_emit [simp]: "same_master s (emit x s)"
  by (simp add: same_master_def emit_def)

lemma same_increment [simp]: "same_master s (increment m v s)"
  by (simp add: increment_def)

lemma same_timing [simp]: "same_master s (timing m v s)"
  by (simp add: timing_def)

lemma same_notify [simp]: "same_master s (notify srv st s)"
  by (simp add: notify_def same_master_def emit_def emit_calls_def split_beta Let_def)

lemma same_announce [simp]: "same_master s (announce k srv st s)"
  by (simp add: announce_def notify_def same_master_def emit_def emit_calls_def split_beta Let_def)

lemma same_notify_again [simp]: "same_master s (notify_again i s)"
  by (simp add: notify_again_def Let_def)

lemma open_effects [simp]:
  "openNotices (emit x s) = openNotices s" "openNotices (increment m v s) = openNotices s"
  "openNotices (timing m v s) = openNotices s" "openNotices (notify srv st s) = openNotices s"
  "openNotices (announce k srv st s) = openNotices s @ [told_of k srv st]"
  "openNotices (notify_again i s) = openNotices s"
  by (simp_all add: emit_def increment_def timing_def notify_def announce_def notify_again_def emit_calls_def
      split_beta Let_def)

lemmas effect_frames [simp] =
  same_masterD [OF same_emit] same_masterD [OF same_increment] same_masterD [OF same_timing]
  same_masterD [OF same_notify] same_masterD [OF same_announce] same_masterD [OF same_notify_again]

lemma outs_emit [simp]:
  "outs (emit x s) = outs s @ [x]" "outs (emit_calls calls s) = outs s @ map Db_call calls"
  "outs (increment m v s) = outs s @ [Stat (Increment m (VInt v))]"
  "outs (timing m v s) = outs s @ [Stat (Timing m (VInt v))]"
  by (simp_all add: emit_def emit_calls_def increment_def timing_def)

end
