(* ===== verification/Rounds.thy ===== *)
theory Rounds
  imports Master_State
begin

text \<open>
  The rounds of the master (\<open>lib/jetmon.js\<close>): fetching batches of sites, the queue of sites to be
  checked, and handing work to workers.  A handler reads the clock once, as its argument \<open>now\<close>.
\<close>

section \<open>The round\<close>

definition resetVariables :: "int \<Rightarrow> master \<Rightarrow> master" where
  "resetVariables now s = s\<lparr>startTime := now, endOfRound := False\<rparr>"

definition getRoundDuration :: "config \<Rightarrow> int" where
  "getRoundDuration c = (if USE_VARIABLE_CHECK_INTERVALS c then 60 else MIN_TIME_BETWEEN_ROUNDS_SEC c)"

text \<open>
  \<open>getMoreSites\<close>: at the end of a round only the timer for the next one is set; otherwise the next
  batch is queried.  The timer's function resets the round's variables and calls it again.
\<close>

definition getMoreSites :: "int \<Rightarrow> master \<Rightarrow> master" where
  "getMoreSites now s =
     (let s = s\<lparr>gettingSites := True\<rparr>;
          s = (if \<not> inRound s then s\<lparr>inRound := True\<rparr> else s)
      in if endOfRound s then
           let timeSinceStart = now - startTime s;
               timeToNextLoop = getRoundDuration (conf s) * SECONDS - timeSinceStart
           in emit (Set_timer Next_round timeToNextLoop)
                (timing ''round.done_sending_work.time'' timeSinceStart (s\<lparr>roundTimers := Suc (roundTimers s)\<rparr>))
         else
           let s = increment ''queue.items_left_in_queue_when_fetching_new.count'' (int (length (arrObjects s))) s;
               (fin, d, calls) = getNextBatch (conf s) (database s)
           in (emit_calls calls s)\<lparr>database := d, endOfRound := fin, queriesDue := Suc (queriesDue s)\<rparr>)"

definition next_round_timer :: "int \<Rightarrow> master \<Rightarrow> master" where
  "next_round_timer now s = getMoreSites now (resetVariables now s)"

text \<open>
  The numbers of the language are doubles.  \<open>double_of a b\<close> is the double nearest to the quotient of two
  natural numbers, ties to the even one, as a fraction; the quotients here are far from the
  limits of the exponent.  \<open>bits n\<close> is the length of \<open>n\<close> in binary.
\<close>

function bits :: "int \<Rightarrow> int" where
  "bits n = (if n \<le> 0 then 0 else 1 + bits (n div 2))"
  by pat_completeness auto
termination
  by (relation "measure nat") auto

declare bits.simps [simp del]

definition scaled :: "int \<Rightarrow> int \<Rightarrow> int \<Rightarrow> int \<times> int" where
  "scaled a b e = (if 0 \<le> e then (a, b * 2 ^ nat e) else (a * 2 ^ nat (- e), b))"

definition double_of :: "int \<Rightarrow> int \<Rightarrow> int \<times> int" where
  "double_of a b =
     (if a = 0 then (0, 1)
      else
        let k = bits a - bits b;
            (x, y) = scaled a b k;
            e = (if y \<le> x then k else k - 1) - 52;
            (x, y) = scaled a b e;
            q = x div y;
            r = x mod y;
            m = (if 2 * r < y \<or> 2 * r = y \<and> even q then q else q + 1)
        in if 0 \<le> e then (m * 2 ^ nat e, 1) else (m, 2 ^ nat (- e)))"

text \<open>
  \<open>sps\<close>: sites per second, \<open>n / ms * 1000\<close>, printed without decimals where it is whole and with one
  otherwise (\<open>toFixed\<close> rounds the exact value, halves up), with the quotients by zero as the
  language prints them.
\<close>

definition sps_val :: "int \<Rightarrow> int \<Rightarrow> stat_val" where
  "sps_val n ms =
     (if ms = 0 then (if n = 0 then VNaN else VInfinity)
      else
        let (x, y) = double_of \<bar>n\<bar> \<bar>ms\<bar>;
            (x, y) = double_of (x * 1000) y;
            neg = ((n < 0) \<noteq> (ms < 0))
        in if y dvd x then VInt (if neg then - (x div y) else x div y)
           else VFixed1 neg (nat ((20 * x + y) div (2 * y))))"

definition maybeEndRound :: "int \<Rightarrow> master \<Rightarrow> master" where
  "maybeEndRound now s =
     (if inRound s \<and> arrObjects s = [] \<and> length (arrWorkers s) = length (freeWorkers s) then
        let s = s\<lparr>inRound := False\<rparr>;
            timeSinceStart = now - startTime s;
            timeToNextLoop = getRoundDuration (conf s) * SECONDS - timeSinceStart;
            sps = sps_val (roundSitesCount s) timeSinceStart;
            s = timing ''round.complete.time'' timeSinceStart s;
            s = timing ''round.next.time'' timeToNextLoop s;
            s = increment ''round.sites.count'' (roundSitesCount s) s;
            s = emit (Stat (Increment ''round.sps.count'' sps)) s;
            s = timing ''round.time'' timeSinceStart s
        in s\<lparr>roundSitesCount := 0\<rparr>
      else s)"

section \<open>Handing out work\<close>

text \<open>A missing size (\<open>null\<close>, or zero) and a size out of bounds mean DATASET_SIZE.\<close>

definition dataset_size :: "config \<Rightarrow> int option \<Rightarrow> int" where
  "dataset_size c sz =
     (case sz of
        None \<Rightarrow> DATASET_SIZE c
      | Some n \<Rightarrow> if n = 0 \<or> n < 1 \<or> n > DATASET_SIZE c then DATASET_SIZE c else n)"

definition get_work_dataset :: "int option \<Rightarrow> master \<Rightarrow> site list \<times> master" where
  "get_work_dataset sz s =
     (let sz = dataset_size (conf s) sz
      in if length (arrObjects s) < 1 then ([], s)
         else
           let (data, rest) = splice_at 0 (nat (min (int (length (arrObjects s))) sz)) (arrObjects s)
           in (data, s\<lparr>arrObjects := rest\<rparr>))"

definition assign_work_to_worker :: "nat \<Rightarrow> int option \<Rightarrow> master \<Rightarrow> master" where
  "assign_work_to_worker p sz s =
     (case getWorker p s of
        None \<Rightarrow> s
      | Some w \<Rightarrow>
          if p \<in> set (haltedWorkers s) then s
          else
            let (dataset, s1) = get_work_dataset sz s
            in if dataset = [] then s1
               else emit (To_worker (proc_pid w) (Queue_add dataset)) s1)"

text \<open>The message \<open>send_work\<close>: a worker asks for work.\<close>

definition send_work :: "int \<Rightarrow> nat \<Rightarrow> master \<Rightarrow> master" where
  "send_work now p s =
     (if int (length (arrWorkers s)) > NUM_WORKERS (conf s) then
        (case getWorker p s of
           None \<Rightarrow> s
         | Some w \<Rightarrow> emit (To_worker (proc_pid w) Evaporate) s)
      else if arrObjects s = [] then
        let s1 = (if p \<notin> set (haltedWorkers s) \<and> p \<notin> set (freeWorkers s)
                  then s\<lparr>freeWorkers := freeWorkers s @ [p]\<rparr> else s);
            s2 = (if \<not> gettingSites s1 then getMoreSites now (s1\<lparr>gettingSites := True\<rparr>) else s1)
        in maybeEndRound now s2
      else assign_work_to_worker p None s)"

text \<open>The message \<open>stop_work\<close>: a worker asks not to get any more.\<close>

definition stop_work :: "int \<Rightarrow> nat \<Rightarrow> master \<Rightarrow> master" where
  "stop_work now p s =
     maybeEndRound now
       (if p \<notin> set (haltedWorkers s) \<and> getWorker p s \<noteq> None
        then s\<lparr>haltedWorkers := haltedWorkers s @ [p],
               freeWorkers := filter (\<lambda>a. a \<noteq> p) (freeWorkers s)\<rparr>
        else s)"

fun ask_each :: "int \<Rightarrow> nat list \<Rightarrow> master \<Rightarrow> master" where
  "ask_each now [] s = s"
| "ask_each now (p # ps) s =
     ask_each now ps (if getWorker p s \<noteq> None then send_work now p s else s)"

definition freeWorkersToWork :: "int \<Rightarrow> master \<Rightarrow> master" where
  "freeWorkersToWork now s =
     (if arrObjects s = [] then s
      else ask_each now (freeWorkers s) (s\<lparr>freeWorkers := []\<rparr>))"

section \<open>The answer of a batch query\<close>

definition site_of_row :: "row \<Rightarrow> site" where
  "site_of_row r = \<lparr>blog_id = row_blog_id r, monitor_url = row_monitor_url r, lastCheck = None,
     last_status_change = (case row_last_status_change r of None \<Rightarrow> 0 | Some t \<Rightarrow> t),
     checks = [], site_status = row_site_status r, oldStatus = row_site_status r,
     processed = False\<rparr>"

text \<open>\<open>started\<close> is the time at which the query was made.\<close>

definition batch_rows :: "int \<Rightarrow> int \<Rightarrow> row list option \<Rightarrow> master \<Rightarrow> master" where
  "batch_rows now started rows s =
     (case rows of
        None \<Rightarrow> getMoreSites now s
      | Some rs \<Rightarrow>
          if rs = [] then getMoreSites now s
          else
            let s = timing ''db.get_next_batch'' (now - started) s;
                s = s\<lparr>arrObjects := arrObjects s @ map site_of_row rs, gettingSites := False\<rparr>
            in freeWorkersToWork now s)"

definition batch_result :: "int \<Rightarrow> int \<Rightarrow> string option \<times> row list option \<Rightarrow> master \<Rightarrow> master" where
  "batch_result now started res s =
     (let (d, got) = batch_answer (conf s) res (database s)
      in case got of
           None \<Rightarrow> s\<lparr>database := d\<rparr>
         | Some rows \<Rightarrow> batch_rows now started rows (s\<lparr>database := d\<rparr>))"

end
