(* ===== verification/Retries.thy ===== *)
theory Retries
  imports Rounds
begin

text \<open>
  Sites that failed a check (\<open>lib/jetmon.js\<close>): the local queue of sites to be checked again, the
  queue of sites the verifliers are asked about, the counting of their answers, and the five second
  tick that works both queues off.
\<close>

section \<open>Entering the queues\<close>

definition add_server_to_local_retries :: "site \<Rightarrow> master \<Rightarrow> master" where
  "add_server_to_local_retries sv s =
     (if \<exists>x \<in> set (localRetries s). same_site x sv then s
      else s\<lparr>localRetries := localRetries s @ [sv\<lparr>processed := False\<rparr>]\<rparr>)"

definition host_check_request :: "int \<Rightarrow> site \<Rightarrow> master \<Rightarrow> master" where
  "host_check_request now sv s =
     s\<lparr>queuedRetries := queuedRetries s @
        [\<lparr>blog_id = blog_id sv, monitor_url = monitor_url sv, lastCheck = lastCheck sv,
          last_status_change = last_status_change sv, checks = checks sv,
          status_id = site_status sv, retry_site_status = None, offline_confirms = 0,
          requests_sent = False, requests_outstanding = 0, last_activity = now, retry_no = retryCount s\<rparr>],
       retryCount := Suc (retryCount s)\<rparr>"

text \<open>The message \<open>recheck\<close>.\<close>

definition recheck :: "int \<Rightarrow> site \<Rightarrow> master \<Rightarrow> master" where
  "recheck now sv s =
     (if int (length (checks sv)) < NUM_OF_CHECKS (conf s) then add_server_to_local_retries sv s
      else host_check_request now sv s)"

section \<open>Answers of the verifliers\<close>

text \<open>
  An answer as \<open>checkHostStatus\<close> meets it.  Its \<open>blog_id\<close> and \<open>monitor_url\<close> are compared only, so they are the
  results of \<open>==\<close> with the ones of an entry, which can throw; the others are stored.
\<close>

record host_status =
  hs_blog_id :: "nat \<Rightarrow> js_error + bool"
  hs_monitor_url :: "string \<Rightarrow> js_error + bool"
  hs_status :: jsval
  hs_rtt :: jsval
  hs_code :: jsval
  hs_error_code :: jsval

definition answers :: "host_status \<Rightarrow> retry \<Rightarrow> js_error + bool" where
  "answers data r =
     and_then (hs_blog_id data (blog_id r)) (\<lambda>b. if b then hs_monitor_url data (monitor_url r) else Inr False)"

text \<open>What one answer does to the entry it is about, up to the test of its status.\<close>

definition take_answer :: "string \<Rightarrow> host_status \<Rightarrow> int \<Rightarrow> retry \<Rightarrow> retry" where
  "take_answer veriflier_host data now r =
     r\<lparr>requests_outstanding := requests_outstanding r - 1, last_activity := now,
       checks := checks r @
         [\<lparr>check_type = VERIFLIER_CHECK, check_host = veriflier_host,
           check_status = hs_status data, check_rtt = hs_rtt data,
           check_code = hs_code data, check_error_code = hs_error_code data\<rparr>]\<rparr>"

text \<open>
  The loop over the queue: the first entry about the site takes the answer; it is returned if it
  has to be reported.  An exception leaves the queue as it is at that moment.
\<close>

fun answer_loop ::
  "int \<Rightarrow> string \<Rightarrow> host_status \<Rightarrow> int \<Rightarrow> retry list \<Rightarrow> retry list \<times> (js_error + retry option)" where
  "answer_loop limit h data now [] = ([], Inr None)"
| "answer_loop limit h data now (r # rs) =
     (case answers data r of
        Inl e \<Rightarrow> (r # rs, Inl e)
      | Inr about \<Rightarrow>
          if \<not> about then
            let (rs', x) = answer_loop limit h data now rs in (r # rs', x)
          else
            let r = take_answer h data now r
            in case found_offline (hs_status data) of
                 Inl e \<Rightarrow> (r # rs, Inl e)
               | Inr offline \<Rightarrow>
                   if offline then
                     let r = r\<lparr>offline_confirms := offline_confirms r + 1\<rparr>
                     in if offline_confirms r \<ge> limit
                        then let r = r\<lparr>retry_site_status := Some SITE_DOWN\<rparr> in (r # rs, Inr (Some r))
                        else (r # rs, Inr None)
                   else (r # rs, Inr None))"

text \<open>An open notice about an object that is in the queue sees what becomes of it there.\<close>

definition refresh :: "retry list \<Rightarrow> told list \<Rightarrow> told list" where
  "refresh q os =
     map (\<lambda>t. case find (\<lambda>r. told_entry t = Some (retry_no r)) q of
                None \<Rightarrow> t | Some r \<Rightarrow> t\<lparr>checks := checks r\<rparr>) os"

text \<open>The second part of the result is the exception that is thrown, if one is.\<close>

definition checkHostStatus :: "string \<Rightarrow> host_status \<Rightarrow> int \<Rightarrow> master \<Rightarrow> master \<times> js_error option" where
  "checkHostStatus h data now s =
     (let (q, x) = answer_loop (peerLimit s) h data now (queuedRetries s);
          s = s\<lparr>queuedRetries := q, openNotices := refresh q (openNotices s)\<rparr>
      in case x of
           Inl e \<Rightarrow> (s, Some e)
         | Inr None \<Rightarrow> (s, None)
         | Inr (Some r) \<Rightarrow> (announce (Some (retry_no r)) r SITE_DOWN s, None))"

datatype ssl_msg =
    Host_status string host_status
  | Host_status_array string "host_status list"
  | Other_ssl

text \<open>The loop over the answers of an array ends at an exception, which \<open>sslWorkerCallBack\<close> logs.\<close>

fun check_each :: "string \<Rightarrow> int \<Rightarrow> host_status list \<Rightarrow> master \<Rightarrow> master" where
  "check_each h now [] s = s"
| "check_each h now (d # ds) s =
     (case checkHostStatus h d now s of
        (t, None) \<Rightarrow> check_each h now ds t
      | (t, Some e) \<Rightarrow> t)"

fun sslWorkerCallBack :: "int \<Rightarrow> ssl_msg \<Rightarrow> master \<Rightarrow> master" where
  "sslWorkerCallBack now (Host_status h data) s = fst (checkHostStatus h data now s)"
| "sslWorkerCallBack now (Host_status_array h ds) s = check_each h now ds s"
| "sslWorkerCallBack now Other_ssl s = s"

section \<open>The tick: remote retries\<close>

definition asked :: "int \<Rightarrow> retry \<Rightarrow> retry" where
  "asked peerCount r = r\<lparr>requests_sent := True, requests_outstanding := peerCount\<rparr>"

definition finished :: "config \<Rightarrow> int \<Rightarrow> retry \<Rightarrow> bool" where
  "finished c now r =
     (requests_outstanding r \<le> 0 \<or> now > last_activity r + TIMEOUT_FOR_REQUESTS_SEC c * SECONDS)"

text \<open>
  The loop runs from the end of the queue to its start: the first argument is the number of entries
  not yet visited.  It returns the queue and the entries to be asked about.
\<close>

fun retry_loop :: "config \<Rightarrow> int \<Rightarrow> nat \<Rightarrow> retry list \<Rightarrow> retry list \<Rightarrow> retry list \<times> retry list" where
  "retry_loop c now 0 q sending = (q, sending)"
| "retry_loop c now (Suc i) q sending =
     (let r = q ! i in
      if \<not> requests_sent r then
        let r' = asked (int (length (VERIFIERS c))) r
        in retry_loop c now i (q[i := r']) (sending @ [r'])
      else if finished c now r then retry_loop c now i (snd (splice_at i 1 q)) sending
      else retry_loop c now i q sending)"

text \<open>
  The batches for the verifliers, taken from the end.  With a batch size that is not positive the
  loop does not end: its result is then \<open>None\<close>.
\<close>

partial_function (option) batch_loop :: "int \<Rightarrow> int \<Rightarrow> retry list \<Rightarrow> retry list list \<Rightarrow> retry list list option" where
  "batch_loop batchSize loop sending acc =
     (if loop \<ge> 0 then
        let n = min batchSize (int (length sending));
            (batchData, rest) = splice_at (nat (int (length sending) - n)) (nat n) sending
        in batch_loop batchSize (loop - batchSize) rest (acc @ [batchData])
      else Some acc)"

definition ask_verifliers :: "retry list \<Rightarrow> master \<Rightarrow> master" where
  "ask_verifliers batchData s = fold (\<lambda>v. emit (Ask_veriflier v batchData)) (VERIFIERS (conf s)) s"

definition remote_tick :: "int \<Rightarrow> master \<Rightarrow> master option" where
  "remote_tick now s =
     (let (q, sending) = retry_loop (conf s) now (length (queuedRetries s)) (queuedRetries s) [];
          batchSize = js_or (VERIFLIER_BATCH_SIZE (conf s)) 200
      in case batch_loop batchSize (int (length sending) - 1) sending [] of
           None \<Rightarrow> None
         | Some batches \<Rightarrow> Some (fold ask_verifliers batches (s\<lparr>queuedRetries := q\<rparr>)))"

section \<open>The tick: local retries\<close>

text \<open>The first free worker that still exists, and its position.\<close>

fun first_live :: "master \<Rightarrow> nat list \<Rightarrow> nat option" where
  "first_live s [] = None"
| "first_live s (p # ps) = (if getWorker p s \<noteq> None then Some 0 else map_option Suc (first_live s ps))"

definition too_early :: "config \<Rightarrow> int \<Rightarrow> site \<Rightarrow> bool" where
  "too_early c now sv =
     (case lastCheck sv of None \<Rightarrow> False | Some t \<Rightarrow> now < t + TIME_BETWEEN_CHECKS_SEC c * SECONDS)"

fun local_loop :: "int \<Rightarrow> nat \<Rightarrow> bool \<Rightarrow> master \<Rightarrow> bool \<times> master" where
  "local_loop now 0 addedWork s = (addedWork, s)"
| "local_loop now (Suc k) addedWork s =
     (let sv = localRetries s ! k;
          s' = s\<lparr>localRetries := snd (splice_at k 1 (localRetries s))\<rparr>
      in if too_early (conf s) now sv then local_loop now k addedWork s
         else
           case first_live s (freeWorkers s) of
             Some i \<Rightarrow>
               local_loop now k addedWork
                 ((emit (To_worker (freeWorkers s ! i) (Queue_add [sv])) s')
                    \<lparr>freeWorkers := snd (splice_at i 1 (freeWorkers s))\<rparr>)
           | None \<Rightarrow> local_loop now k True (s'\<lparr>arrObjects := arrObjects s' @ [sv]\<rparr>))"

definition local_tick :: "int \<Rightarrow> master \<Rightarrow> master" where
  "local_tick now s =
     (let (addedWork, s1) = local_loop now (length (localRetries s)) False s
      in if addedWork then freeWorkersToWork now s1 else s1)"

definition processQueuedRetries :: "int \<Rightarrow> master \<Rightarrow> master option" where
  "processQueuedRetries now s = map_option (local_tick now) (remote_tick now s)"

end
