(* ===== verification/Reports.thy ===== *)
theory Reports
  imports Rounds
begin

text \<open>
  \<open>updateStats\<close> of \<open>lib/jetmon.js\<close>: the periodic report of the master's counters and of the check
  statistics to StatsD, and the three files under \<open>stats/\<close>.  A file is written when it is open, with
  the counters as they were at the report and the queues as they are by then.
\<close>

definition code_metrics :: "stat_key \<Rightarrow> string \<Rightarrow> int nobj \<Rightarrow> stat_call list" where
  "code_metrics k kind m =
     map (\<lambda>(code, n). Increment (''worker.check.'' @ key_name k @ ''.'' @ kind @ ''.'' @ show_nat code @ ''.count'')
            (VInt n)) m"

definition key_metrics :: "stat_key \<times> key_stats \<Rightarrow> stat_call list" where
  "key_metrics e =
     (case e of (k, st) \<Rightarrow>
        code_metrics k ''code'' (http_code st) @ code_metrics k ''error_code'' (error_code st) @
        [Timing (''worker.check.'' @ key_name k @ ''.rtt.avg'')
           (VInt (round_div (rtt_sum (rtt_of st)) (rtt_count (rtt_of st)))),
         Timing (''worker.check.'' @ key_name k @ ''.rtt.max'') (VInt (rtt_max (rtt_of st))),
         Timing (''worker.check.'' @ key_name k @ ''.rtt.min'') (VInt (rtt_min (rtt_of st)))])"

definition emit_stats :: "stat_call list \<Rightarrow> master \<Rightarrow> master" where
  "emit_stats cs s = s\<lparr>outs := outs s @ map Stat cs\<rparr>"

definition restart_if_late :: "int \<Rightarrow> master \<Rightarrow> master" where
  "restart_if_late now s =
     (if DEBUG (conf s) then
        let nextLoop = getRoundDuration (conf s) * SECONDS - (now - startTime s)
        in if nextLoop < - 20000 then emit (Set_timer Restart_round 100) ((resetVariables now s)\<lparr>restartTimers := Suc (restartTimers s)\<rparr>) else s
      else s)"

definition updateStats :: "int \<Rightarrow> int \<Rightarrow> master \<Rightarrow> master" where
  "updateStats now rss s =
     (let sps = sps_val (sitesCount s) (STATS_UPDATE_INTERVAL_MS (conf s));
          s = restart_if_late now s;
          localGCountSuccess = gCountSuccess s;
          localGCountError = gCountError s;
          localGCountOffline = gCountOffline s;
          localSitesCount = sitesCount s;
          s = s\<lparr>gCountSuccess := 0, gCountError := 0, gCountOffline := 0, sitesCount := 0\<rparr>;
          s = emit (Open_file (Sps_file sps)) s;
          s = emit (Open_file Queue_file) s;
          s = emit (Open_file (Totals_file localGCountError localGCountOffline localGCountSuccess localSitesCount)) s;
          working = int (length (arrWorkers s)) - int (length (freeWorkers s));
          s = emit_stats
            [Increment ''stats.sites.sps.count'' sps,
             Increment ''stats.sites.error.count'' (VInt localGCountError),
             Increment ''stats.sites.offline.count'' (VInt localGCountOffline),
             Increment ''stats.sites.success.count'' (VInt localGCountSuccess),
             Increment ''stats.sites.total.count'' (VInt localSitesCount),
             Increment ''stats.sites.queue.count'' (VInt (int (length (arrObjects s)))),
             Increment ''stats.workers.free.count'' (VInt (int (length (freeWorkers s)))),
             Increment ''stats.workers.halting.count'' (VInt (int (length (haltedWorkers s)))),
             Increment ''stats.workers.working.count'' (VInt working)] s;
          s = emit_stats (concat (map key_metrics (checkStats s))) s;
          s = s\<lparr>checkStats := []\<rparr>;
          s = (if STATSD_SEND_MEM_USAGE (conf s)
               then emit_stats (Timing ''stats.parent.memory'' (VInt rss) #
                      map (\<lambda>(p, r). Timing ''stats.workers.memory'' (VInt (memoryUsage r))) (workerStats s)) s
               else s)
      in emit (Set_timer Update_stats (STATS_UPDATE_INTERVAL_MS (conf s))) s)"

fun job_file :: "stats_job \<Rightarrow> string" where
  "job_file (Sps_file sps) = ''stats/sitespersec''"
| "job_file Queue_file = ''stats/sitesqueue''"
| "job_file (Totals_file e f u n) = ''stats/totals''"

fun job_lines :: "stats_job \<Rightarrow> master \<Rightarrow> string list" where
  "job_lines (Sps_file sps) s = [''sites per second: '' @ show_val sps]"
| "job_lines Queue_file s = [''sites in queue: '' @ show_int (int (length (arrObjects s)))]"
| "job_lines (Totals_file e f u n) s =
     [''working : '' @ show_int (int (length (arrWorkers s)) - int (length (freeWorkers s))),
      ''waiting : '' @ show_int (int (length (freeWorkers s))),
      ''halting : '' @ show_int (int (length (haltedWorkers s))),
      ''error   : '' @ show_int e,
      ''offline : '' @ show_int f,
      ''success : '' @ show_int u,
      ''total   : '' @ show_int n]"

text \<open>The event \<open>open\<close> of a file.\<close>

definition file_opened :: "stats_job \<Rightarrow> master \<Rightarrow> master" where
  "file_opened job s =
     s\<lparr>outs := outs s @ map (\<lambda>l. Write_file (job_file job) (l @ [CHR 0x0A])) (job_lines job s)\<rparr>"

lemma same_file_opened [simp]: "same_master s (file_opened job s)"
  by (simp add: file_opened_def same_master_def)

lemmas file_opened_frames [simp] = same_masterD [OF same_file_opened]

end
