(* ===== verification/Master.thy ===== *)
theory Master
  imports Retries Reports
begin

text \<open>
  The master process as a whole: the dispatch of messages from its workers, its signals, and the
  events of its environment (messages, exits, timers, answers of the database and of WPCOM) as one
  transition system.
\<close>

section \<open>Messages from a worker\<close>

definition count_totals :: "totals \<Rightarrow> master \<Rightarrow> master" where
  "count_totals t s = s\<lparr>
     gCountSuccess := gCountSuccess s + total_running t,
     gCountError := gCountError s + total_down t,
     gCountOffline := gCountOffline s + total_confirmed t,
     sitesCount := sitesCount s + totals_sum t,
     roundSitesCount := roundSitesCount s + totals_sum t\<rparr>"

definition worker_stats :: "nat \<Rightarrow> worker_report \<Rightarrow> check_stats \<Rightarrow> master \<Rightarrow> master" where
  "worker_stats p rep cs s =
     (let s = s\<lparr>checkStats := merge_stats (checkStats s) cs,
                workerStats := nobj_put p rep (workerStats s)\<rparr>;
          s = (if uptime rep > 5000
               then increment ''worker.queue.queue_size'' (int (queueLength rep))
                      (increment ''worker.queue.active'' (report_activeChecks rep) s)
               else s);
          queueLeftToProcess = max 0 (int (queueLength rep) - int (report_pointer rep))
      in if queueLeftToProcess < NUM_TO_PROCESS (conf s)
         then assign_work_to_worker p (Some (DATASET_SIZE (conf s) - queueLeftToProcess)) s
         else s)"

fun workerMsgCallback :: "int \<Rightarrow> worker_msg \<Rightarrow> master \<Rightarrow> master" where
  "workerMsgCallback now (Totals t) s = count_totals t s"
| "workerMsgCallback now (Notify_still_down sv) s =
     (let sv = sv\<lparr>site_status := SITE_CONFIRMED_DOWN\<rparr> in announce None sv (site_status sv) s)"
| "workerMsgCallback now (Notify_status_change sv) s = announce None sv (site_status sv) s"
| "workerMsgCallback now (Stop_work p) s = stop_work now p s"
| "workerMsgCallback now (Send_work p) s = send_work now p s"
| "workerMsgCallback now (Recheck sv) s = recheck now sv s"
| "workerMsgCallback now (Stats p rep cs) s = worker_stats p rep cs s"
| "workerMsgCallback now (Unknown_request p) s = s"

section \<open>Signals\<close>

text \<open>SIGHUP: \<open>fl\<close> is the configuration that is read, \<open>None\<close> where the load throws.\<close>

definition reload_signal :: "config option \<Rightarrow> master \<Rightarrow> master" where
  "reload_signal fl s =
     (case fl of
        None \<Rightarrow> s
      | Some c \<Rightarrow>
          let s = increment ''config_reload.count'' 1 (s\<lparr>conf := c\<rparr>)
          in fold (\<lambda>w. emit (To_worker (proc_pid w) Config_update)) (arrWorkers s) s)"

text \<open>
  The duration printed at the exit: whole minutes, rounded down, and the rest in seconds with up to
  three decimals; \<open>%\<close> has the sign of the dividend.
\<close>

definition show_thousandths :: "nat \<Rightarrow> string" where
  "show_thousandths k =
     show_nat (k div 1000)
     @ (if k mod 1000 = 0 then []
        else ''.'' @ (if k mod 100 = 0 then show_nat (k mod 1000 div 100)
                      else if k mod 10 = 0 then pad2 (k mod 1000 div 10)
                      else (if k mod 1000 < 100 then ''0'' else []) @ pad2 (k mod 1000)))"

definition show_duration :: "int \<Rightarrow> string" where
  "show_duration d =
     (let rest = nat (\<bar>d\<bar> mod 60000)
      in show_int (d div 60000) @ ''m '' @ (if d < 0 \<and> rest \<noteq> 0 then ''-'' else []) @ show_thousandths rest @ ''s'')"

definition printTotals :: "int \<Rightarrow> master \<Rightarrow> master" where
  "printTotals now s =
     fold (\<lambda>x. emit (Console x))
       [[],
        ''Error:   '' @ show_int (gCountError s),
        ''Offline: '' @ show_int (gCountOffline s),
        ''Success: '' @ show_int (gCountSuccess s),
        ''Total:   '' @ show_int (gCountSuccess s + gCountError s + gCountOffline s),
        ''Time:    '' @ show_duration (now - startTime s)] s"

text \<open>The function that is called back prints the totals and ends the process.\<close>

definition gracefulShutdown :: "int \<Rightarrow> commit_answer \<Rightarrow> master \<Rightarrow> master" where
  "gracefulShutdown now ans s =
     (let s = emit (Console ''Caught shutdown signal, disconnecting worker threads.'') s;
          s = fold (\<lambda>w. if proc_connected w then emit (Disconnect (proc_pid w)) else (\<lambda>s. s)) (arrWorkers s) s;
          s = emit (Console ''committing any outstanding db updates.'') s;
          (d, calls, called) = commitUpdates True ans (database s);
          s = emit_calls calls (s\<lparr>database := d\<rparr>)
      in if called then emit (Exit 0) (printTotals now s) else s)"

section \<open>Events\<close>

datatype master_event =
    Worker_msg int worker_msg
  | Worker_exit nat "int option" bool nat
  | Count_timer "nat \<Rightarrow> nat"
  | Ssl_msg int ssl_msg
  | Tick int
  | Stats_tick int int
  | Round_timer int
  | Restart_timer int
  | Batch int int "string option \<times> row list option"
  | Wpcom_failed nat
  | Reload "config option"
  | Db_updated bool
  | File_opened stats_job

fun master_step :: "master_event \<Rightarrow> master \<Rightarrow> master" where
  "master_step (Worker_msg now m) s = workerMsgCallback now m s"
| "master_step (Worker_exit p code e q) s = worker_exit p code e q s"
| "master_step (Count_timer fresh) s = ensure_worker_count fresh False s"
| "master_step (Ssl_msg now m) s = sslWorkerCallBack now m s"
| "master_step (Tick now) s = (case processQueuedRetries now s of Some t \<Rightarrow> t | None \<Rightarrow> s)"
| "master_step (Stats_tick now rss) s = updateStats now rss s"
| "master_step (Round_timer now) s = next_round_timer now (s\<lparr>roundTimers := roundTimers s - 1\<rparr>)"
| "master_step (Restart_timer now) s = getMoreSites now (s\<lparr>restartTimers := restartTimers s - 1\<rparr>)"
| "master_step (Batch now started res) s = batch_result now started res (s\<lparr>queriesDue := queriesDue s - 1\<rparr>)"
| "master_step (Wpcom_failed i) s = notify_again i s"
| "master_step (Reload fl) s = reload_signal fl s"
| "master_step (Db_updated b) s = s\<lparr>database := updateConfig b (database s)\<rparr>"
| "master_step (File_opened job) s = file_opened job s"

end
