(* ===== verification/Master_Pool.thy ===== *)
theory Master_Pool
  imports Master
begin

text \<open>
  The invariant of the master's pool of workers: who is registered, who is free, who is halted, and
  that no registered worker sits free while sites are queued.  Every handler keeps it, whatever
  process id a message carries.
\<close>

section \<open>The invariant\<close>

definition pids :: "master \<Rightarrow> nat set" where
  "pids s = proc_pid ` set (arrWorkers s)"

definition pool_inv :: "master \<Rightarrow> bool" where
  "pool_inv s \<longleftrightarrow> distinct (map proc_pid (arrWorkers s)) \<and> 0 \<notin> pids s \<and>
     distinct (freeWorkers s) \<and> distinct (haltedWorkers s) \<and>
     set (freeWorkers s) \<inter> set (haltedWorkers s) = {} \<and> set (haltedWorkers s) \<subseteq> pids s \<and>
     (arrObjects s \<noteq> [] \<longrightarrow> set (freeWorkers s) \<inter> pids s = {})"

text \<open>The stronger form that holds while only registered workers are heard.\<close>

definition known_free :: "master \<Rightarrow> bool" where
  "known_free s \<longleftrightarrow> set (freeWorkers s) \<subseteq> pids s"

definition same_pool :: "master \<Rightarrow> master \<Rightarrow> bool" where
  "same_pool s t \<longleftrightarrow> arrWorkers t = arrWorkers s \<and> freeWorkers t = freeWorkers s \<and>
     haltedWorkers t = haltedWorkers s \<and> arrObjects t = arrObjects s"

lemma same_pool_inv: "same_pool s t \<Longrightarrow> pool_inv t = pool_inv s"
  by (simp add: same_pool_def pool_inv_def pids_def)

lemma same_pool_known: "same_pool s t \<Longrightarrow> known_free t = known_free s"
  by (simp add: same_pool_def known_free_def pids_def)

lemma same_pool_refl [simp]: "same_pool s s"
  by (simp add: same_pool_def)

lemma same_pool_trans: "same_pool s t \<Longrightarrow> same_pool t u \<Longrightarrow> same_pool s u"
  by (simp add: same_pool_def)

lemma same_master_pool: "same_master s t \<Longrightarrow> same_pool s t"
  by (simp add: same_pool_def same_masterD)

lemma getWorker_iff: "getWorker p s \<noteq> None \<longleftrightarrow> p \<noteq> 0 \<and> p \<in> pids s"
  by (simp add: getWorker_def pids_def find_None_iff image_iff del: not_None_eq) metis

lemma getWorker_known: "pool_inv s \<Longrightarrow> getWorker p s \<noteq> None \<longleftrightarrow> p \<in> pids s"
  using getWorker_iff by (auto simp: pool_inv_def)

lemma getWorker_pid: "getWorker p s = Some w \<Longrightarrow> proc_pid w = p \<and> p \<in> pids s"
  by (auto simp: getWorker_def pids_def find_Some_iff split: if_splits)

section \<open>Registering and removing\<close>

lemma deleteWorker_fields:
  assumes "distinct (map proc_pid (arrWorkers s))" and "p \<noteq> 0"
  shows "arrWorkers (deleteWorker p s) = filter (\<lambda>w. proc_pid w \<noteq> p) (arrWorkers s)"
    and "freeWorkers (deleteWorker p s) = filter (\<lambda>a. a \<noteq> p) (freeWorkers s)"
    and "haltedWorkers (deleteWorker p s) = filter (\<lambda>a. a \<noteq> p) (haltedWorkers s)"
    and "arrObjects (deleteWorker p s) = arrObjects s"
  using assms(2) delete_first_distinct_map [OF assms(1)]
  by (auto simp: deleteWorker_def Let_def filter_id_conv)

lemma pids_delete:
  "distinct (map proc_pid (arrWorkers s)) \<Longrightarrow> p \<noteq> 0 \<Longrightarrow> pids (deleteWorker p s) = pids s - {p}"
  by (auto simp: pids_def deleteWorker_fields)

lemma deleteWorker_0 [simp]: "deleteWorker 0 s = s"
  by (simp add: deleteWorker_def)

lemma deleteWorker_inv:
  assumes "pool_inv s"
  shows "pool_inv (deleteWorker p s)"
proof (cases "p = 0")
  case False
  have d: "distinct (map proc_pid (arrWorkers s))" using assms by (simp add: pool_inv_def)
  show ?thesis
    using assms unfolding pool_inv_def pids_delete [OF d False] deleteWorker_fields [OF d False]
    by (auto simp: distinct_map_filter)
qed (simp add: assms)

lemma deleteWorker_known:
  assumes "pool_inv s" and "known_free s"
  shows "known_free (deleteWorker p s)"
proof (cases "p = 0")
  case False
  have d: "distinct (map proc_pid (arrWorkers s))" using assms by (simp add: pool_inv_def)
  show ?thesis
    using assms unfolding known_free_def pids_delete [OF d False] deleteWorker_fields [OF d False]
    by auto
qed (simp add: assms)

lemma pool_push:
  assumes "pool_inv s" and "q \<noteq> 0" and "q \<notin> pids s" and "q \<notin> set (freeWorkers s)"
  shows "pool_inv (s\<lparr>arrWorkers := arrWorkers s @ [\<lparr>proc_pid = q, proc_connected = True\<rparr>]\<rparr>)"
  using assms by (auto simp: pool_inv_def pids_def)

lemma spawnWorker_deleted:
  assumes "distinct (map proc_pid (arrWorkers s))" and "q \<noteq> 0"
  shows "q \<notin> pids (deleteWorker q s)" "q \<notin> set (freeWorkers (deleteWorker q s))"
    "q \<notin> set (haltedWorkers (deleteWorker q s))"
  using assms by (auto simp: pids_delete deleteWorker_fields)

lemma spawnWorker_inv:
  assumes "pool_inv s" and "q \<noteq> 0"
  shows "pool_inv (spawnWorker q s)"
proof -
  define s1 where "s1 = increment ''worker.spawn.new.count'' 1 (emit (Fork q) s)"
  have s1: "pool_inv s1"
    using assms(1) same_pool_inv [of s s1] by (simp add: s1_def same_pool_def)
  then have d: "distinct (map proc_pid (arrWorkers s1))" by (simp add: pool_inv_def)
  show ?thesis
    unfolding spawnWorker_def Let_def s1_def [symmetric]
    by (intro pool_push deleteWorker_inv s1 assms(2) spawnWorker_deleted d)
qed

lemma spawnWorker_known:
  assumes "pool_inv s" and "known_free s"
  shows "known_free (spawnWorker q s)"
proof -
  define s1 where "s1 = increment ''worker.spawn.new.count'' 1 (emit (Fork q) s)"
  have "pool_inv s1" "known_free s1"
    using assms same_pool_inv [of s s1] same_pool_known [of s s1]
    by (simp_all add: s1_def same_pool_def)
  then have "known_free (deleteWorker q s1)" by (rule deleteWorker_known)
  then show ?thesis
    unfolding spawnWorker_def Let_def s1_def [symmetric] by (auto simp: known_free_def pids_def)
qed

lemma increment_pool [simp]: "pool_inv (increment m v s) = pool_inv s" "known_free (increment m v s) = known_free s"
  by (rule same_pool_inv same_pool_known, simp add: same_pool_def)+

lemma emit_pool [simp]: "pool_inv (emit x s) = pool_inv s" "known_free (emit x s) = known_free s"
  by (rule same_pool_inv same_pool_known, simp add: same_pool_def)+

lemma notify_pool [simp]: "pool_inv (notify v st s) = pool_inv s" "known_free (notify v st s) = known_free s"
  by (rule same_pool_inv same_pool_known, simp add: same_pool_def)+

lemma worker_exit_inv:
  "pool_inv s \<Longrightarrow> q \<noteq> 0 \<Longrightarrow> pool_inv (worker_exit p code e q s)"
  by (auto simp: worker_exit_def Let_def split_beta intro!: spawnWorker_inv deleteWorker_inv)

lemma worker_exit_known:
  "pool_inv s \<Longrightarrow> known_free s \<Longrightarrow> q \<noteq> 0 \<Longrightarrow> known_free (worker_exit p code e q s)"
  by (auto simp: worker_exit_def Let_def split_beta
      intro!: spawnWorker_known deleteWorker_known deleteWorker_inv)

lemma fold_spawn_inv:
  "pool_inv s \<Longrightarrow> 0 \<notin> set qs \<Longrightarrow> pool_inv (fold spawnWorker qs s)"
  by (induction qs arbitrary: s) (auto intro: spawnWorker_inv)

lemma fold_spawn_known:
  "pool_inv s \<Longrightarrow> known_free s \<Longrightarrow> 0 \<notin> set qs \<Longrightarrow> known_free (fold spawnWorker qs s)"
  by (induction qs arbitrary: s) (auto intro: spawnWorker_inv spawnWorker_known)

lemma fresh_pids: "(\<And>i. fresh i \<noteq> 0) \<Longrightarrow> 0 \<notin> set (map fresh xs)" for fresh :: "nat \<Rightarrow> nat"
  by (auto simp: image_iff)

lemma ensure_worker_count_inv:
  "pool_inv s \<Longrightarrow> (\<And>i. fresh i \<noteq> 0) \<Longrightarrow> pool_inv (ensure_worker_count fresh b s)"
  unfolding ensure_worker_count_def Let_def
  by (simp only: split: if_split) (intro conjI impI fold_spawn_inv fresh_pids, simp_all)

lemma ensure_worker_count_known:
  "pool_inv s \<Longrightarrow> known_free s \<Longrightarrow> (\<And>i. fresh i \<noteq> 0) \<Longrightarrow> known_free (ensure_worker_count fresh b s)"
  unfolding ensure_worker_count_def Let_def
  by (simp only: split: if_split) (intro conjI impI fold_spawn_known fresh_pids, simp_all)

section \<open>Rounds and work\<close>

lemma getMoreSites_same: "same_pool s (getMoreSites now s)"
  by (auto simp: getMoreSites_def same_pool_def Let_def split_beta emit_calls_def)

lemma maybeEndRound_same: "same_pool s (maybeEndRound now s)"
  by (auto simp: maybeEndRound_def same_pool_def Let_def)

lemma same_pool_cases:
  "same_pool s t \<Longrightarrow> pool_inv s \<Longrightarrow> pool_inv t" "same_pool s t \<Longrightarrow> known_free s \<Longrightarrow> known_free t"
  using same_pool_inv same_pool_known by blast+

lemma get_work_dataset_pool:
  assumes "get_work_dataset sz s = (d, t)"
  shows "arrWorkers t = arrWorkers s \<and> freeWorkers t = freeWorkers s \<and> haltedWorkers t = haltedWorkers s \<and>
     localRetries t = localRetries s \<and> outs t = outs s \<and> conf t = conf s \<and> queuedRetries t = queuedRetries s \<and>
     arrObjects s = d @ arrObjects t"
  using assms by (auto simp: get_work_dataset_def Let_def split: if_splits)

lemma assign_fields:
  "arrWorkers (assign_work_to_worker p sz s) = arrWorkers s \<and>
   freeWorkers (assign_work_to_worker p sz s) = freeWorkers s \<and>
   haltedWorkers (assign_work_to_worker p sz s) = haltedWorkers s \<and>
   conf (assign_work_to_worker p sz s) = conf s \<and>
   queuedRetries (assign_work_to_worker p sz s) = queuedRetries s \<and>
   localRetries (assign_work_to_worker p sz s) = localRetries s \<and>
   (arrObjects s = [] \<longrightarrow> arrObjects (assign_work_to_worker p sz s) = [])"
proof -
  obtain d t where d: "get_work_dataset sz s = (d, t)" by (metis surj_pair)
  from get_work_dataset_pool [OF d] show ?thesis
    by (simp add: assign_work_to_worker_def d split: option.split)
qed

lemma assign_inv: "pool_inv s \<Longrightarrow> pool_inv (assign_work_to_worker p sz s)"
  using assign_fields [of p sz s] by (auto simp: pool_inv_def pids_def)

lemma assign_known: "known_free s \<Longrightarrow> known_free (assign_work_to_worker p sz s)"
  using assign_fields [of p sz s] by (auto simp: known_free_def pids_def)

lemma push_free_inv:
  assumes "pool_inv s" and "arrObjects s = []"
  shows "pool_inv (if p \<notin> set (haltedWorkers s) \<and> p \<notin> set (freeWorkers s)
                   then s\<lparr>freeWorkers := freeWorkers s @ [p]\<rparr> else s)"
  using assms by (auto simp: pool_inv_def pids_def)

lemma send_work_idle:
  assumes "\<not> int (length (arrWorkers s)) > NUM_WORKERS (conf s)" and "arrObjects s = []"
  shows "same_pool (if p \<notin> set (haltedWorkers s) \<and> p \<notin> set (freeWorkers s)
                   then s\<lparr>freeWorkers := freeWorkers s @ [p]\<rparr> else s) (send_work now p s)"
proof -
  define s1 where "s1 = (if p \<notin> set (haltedWorkers s) \<and> p \<notin> set (freeWorkers s)
                   then s\<lparr>freeWorkers := freeWorkers s @ [p]\<rparr> else s)"
  define s2 where "s2 = (if \<not> gettingSites s1 then getMoreSites now (s1\<lparr>gettingSites := True\<rparr>) else s1)"
  have "same_pool s1 (s1\<lparr>gettingSites := True\<rparr>)" by (simp add: same_pool_def)
  then have 2: "same_pool s1 s2"
    using same_pool_trans [OF _ getMoreSites_same] by (simp add: s2_def)
  have "send_work now p s = maybeEndRound now s2"
    using assms by (simp add: send_work_def Let_def s2_def s1_def)
  then have "same_pool s1 (send_work now p s)"
    using same_pool_trans [OF 2 maybeEndRound_same] by simp
  then show ?thesis by (simp add: s1_def)
qed

lemma send_work_inv:
  assumes "pool_inv s"
  shows "pool_inv (send_work now p s)"
proof -
  consider (surplus) "int (length (arrWorkers s)) > NUM_WORKERS (conf s)"
    | (idle) "\<not> int (length (arrWorkers s)) > NUM_WORKERS (conf s)" "arrObjects s = []"
    | (work) "\<not> int (length (arrWorkers s)) > NUM_WORKERS (conf s)" "arrObjects s \<noteq> []"
    by blast
  then show ?thesis
  proof cases
    case surplus
    with assms show ?thesis by (simp add: send_work_def split: option.split)
  next
    case idle
    show ?thesis
      by (rule same_pool_cases(1) [OF send_work_idle [OF idle] push_free_inv [OF assms idle(2)]])
  next
    case work
    with assms show ?thesis by (simp add: send_work_def assign_inv)
  qed
qed

lemma send_work_frame: "arrWorkers (send_work now p s) = arrWorkers s"
proof -
  have "arrWorkers (getMoreSites now u) = arrWorkers u" "arrWorkers (maybeEndRound now u) = arrWorkers u" for u
    using getMoreSites_same [of u] maybeEndRound_same [of u] by (simp_all add: same_pool_def)
  then show ?thesis
    using assign_fields by (simp add: send_work_def Let_def split: option.split)
qed

lemma send_work_known:
  assumes "known_free s" and "p \<in> pids s"
  shows "known_free (send_work now p s)"
proof -
  consider (surplus) "int (length (arrWorkers s)) > NUM_WORKERS (conf s)"
    | (idle) "\<not> int (length (arrWorkers s)) > NUM_WORKERS (conf s)" "arrObjects s = []"
    | (work) "\<not> int (length (arrWorkers s)) > NUM_WORKERS (conf s)" "arrObjects s \<noteq> []"
    by blast
  then show ?thesis
  proof cases
    case surplus
    with assms show ?thesis by (simp add: send_work_def split: option.split)
  next
    case idle
    have "known_free (if p \<notin> set (haltedWorkers s) \<and> p \<notin> set (freeWorkers s)
                      then s\<lparr>freeWorkers := freeWorkers s @ [p]\<rparr> else s)"
      using assms by (simp add: known_free_def pids_def)
    then show ?thesis by (rule same_pool_cases(2) [OF send_work_idle [OF idle]])
  next
    case work
    with assms show ?thesis by (simp add: send_work_def assign_known)
  qed
qed

lemma stop_work_inv:
  assumes "pool_inv s"
  shows "pool_inv (stop_work now p s)"
proof -
  define s1 where "s1 = (if p \<notin> set (haltedWorkers s) \<and> getWorker p s \<noteq> None
        then s\<lparr>haltedWorkers := haltedWorkers s @ [p],
               freeWorkers := filter (\<lambda>a. a \<noteq> p) (freeWorkers s)\<rparr> else s)"
  have "pool_inv s1"
    using assms getWorker_known [OF assms, of p] by (auto simp: pool_inv_def pids_def s1_def)
  then show ?thesis
    unfolding stop_work_def s1_def [symmetric] by (rule same_pool_cases(1) [OF maybeEndRound_same])
qed

lemma stop_work_known:
  assumes "known_free s"
  shows "known_free (stop_work now p s)"
proof -
  define s1 where "s1 = (if p \<notin> set (haltedWorkers s) \<and> getWorker p s \<noteq> None
        then s\<lparr>haltedWorkers := haltedWorkers s @ [p],
               freeWorkers := filter (\<lambda>a. a \<noteq> p) (freeWorkers s)\<rparr> else s)"
  have "known_free s1" using assms by (auto simp: known_free_def pids_def s1_def)
  then show ?thesis
    unfolding stop_work_def s1_def [symmetric] by (rule same_pool_cases(2) [OF maybeEndRound_same])
qed

lemma ask_each_inv: "pool_inv s \<Longrightarrow> pool_inv (ask_each now ps s)"
  by (induction ps arbitrary: s) (auto intro: send_work_inv)

lemma ask_each_known: "known_free s \<Longrightarrow> known_free (ask_each now ps s)"
proof (induction ps arbitrary: s)
  case (Cons p ps)
  have "known_free (if getWorker p s \<noteq> None then send_work now p s else s)"
    using Cons.prems getWorker_iff [of p s] by (simp add: send_work_known)
  from Cons.IH [OF this] show ?case by simp
qed simp

lemma freeWorkersToWork_inv:
  assumes "pool_inv (s\<lparr>freeWorkers := []\<rparr>)" and "arrObjects s = [] \<Longrightarrow> pool_inv s"
  shows "pool_inv (freeWorkersToWork now s)"
  using assms ask_each_inv by (simp add: freeWorkersToWork_def)

lemma freeWorkersToWork_known:
  assumes "known_free s"
  shows "known_free (freeWorkersToWork now s)"
proof -
  have "known_free (s\<lparr>freeWorkers := []\<rparr>)" by (simp add: known_free_def)
  with assms ask_each_known show ?thesis by (simp add: freeWorkersToWork_def)
qed

lemma pool_reset_free: "pool_inv s \<Longrightarrow> pool_inv (s\<lparr>arrObjects := xs, freeWorkers := []\<rparr>)"
  by (simp add: pool_inv_def pids_def)

lemma batch_rows_inv:
  assumes "pool_inv s"
  shows "pool_inv (batch_rows now started rows s)"
proof (cases "rows = None \<or> rows = Some []")
  case True
  with assms same_pool_cases(1) [OF getMoreSites_same] show ?thesis
    by (auto simp: batch_rows_def)
next
  case False
  then obtain rs where rs: "rows = Some rs" "rs \<noteq> []" by (cases rows) auto
  define t where "t = (timing ''db.get_next_batch'' (now - started) s)
      \<lparr>arrObjects := arrObjects s @ map site_of_row rs, gettingSites := False\<rparr>"
  have "pool_inv (freeWorkersToWork now t)"
  proof (rule freeWorkersToWork_inv)
    show "pool_inv (t\<lparr>freeWorkers := []\<rparr>)"
      using pool_reset_free [OF assms, of "arrObjects s @ map site_of_row rs"]
      by (simp add: pool_inv_def pids_def t_def)
  qed (simp add: t_def rs)
  then show ?thesis using rs by (simp add: batch_rows_def Let_def t_def)
qed

lemma batch_rows_known:
  assumes "known_free s"
  shows "known_free (batch_rows now started rows s)"
proof (cases "rows = None \<or> rows = Some []")
  case True
  with assms same_pool_cases(2) [OF getMoreSites_same] show ?thesis
    by (auto simp: batch_rows_def)
next
  case False
  then obtain rs where rs: "rows = Some rs" "rs \<noteq> []" by (cases rows) auto
  have "known_free ((timing ''db.get_next_batch'' (now - started) s)
      \<lparr>arrObjects := arrObjects s @ map site_of_row rs, gettingSites := False\<rparr>)"
    using assms by (simp add: known_free_def pids_def)
  from freeWorkersToWork_known [OF this] rs show ?thesis by (simp add: batch_rows_def Let_def)
qed

lemma batch_result_inv: "pool_inv s \<Longrightarrow> pool_inv (batch_result now started res s)"
  using same_pool_inv [of s "s\<lparr>database := d\<rparr>" for d]
  by (auto simp: batch_result_def Let_def same_pool_def intro!: batch_rows_inv split: option.split prod.split)

lemma batch_result_known: "known_free s \<Longrightarrow> known_free (batch_result now started res s)"
  using same_pool_known [of s "s\<lparr>database := d\<rparr>" for d]
  by (auto simp: batch_result_def Let_def same_pool_def intro!: batch_rows_known split: option.split prod.split)

end
