(* ===== verification/Master_Work.thy ===== *)
theory Master_Work
  imports Master_Pool
begin

text \<open>
  What the master does with sites: every site it fetched or took back from a worker is in its queue,
  in the local retries or has been handed to a worker, and whatever it hands out is a fresh
  payload for a registered worker that has not been halted.
\<close>

section \<open>The stock of sites\<close>

definition payload :: "out \<Rightarrow> site list" where
  "payload x = (case x of To_worker p r \<Rightarrow> (case r of Queue_add d \<Rightarrow> d | _ \<Rightarrow> []) | _ \<Rightarrow> [])"

definition handed :: "master \<Rightarrow> site list" where
  "handed s = concat (map payload (outs s))"

definition stock :: "master \<Rightarrow> site multiset" where
  "stock s = mset (handed s) + mset (arrObjects s) + mset (localRetries s)"

definition sites_inv :: "master \<Rightarrow> bool" where
  "sites_inv s \<longleftrightarrow> (\<forall>sv \<in> set (arrObjects s) \<union> set (localRetries s). pristine sv)"

definition no_work :: "out \<Rightarrow> bool" where
  "no_work x = (case x of To_worker p r \<Rightarrow> (case r of Queue_add d \<Rightarrow> False | _ \<Rightarrow> True) | _ \<Rightarrow> True)"

definition good_out :: "master \<Rightarrow> out \<Rightarrow> bool" where
  "good_out s x = (case x of
      To_worker p r \<Rightarrow> (case r of Queue_add d \<Rightarrow> p \<in> pids s \<and> p \<notin> set (haltedWorkers s) \<and> fresh_payload d
                                | _ \<Rightarrow> True)
    | _ \<Rightarrow> True)"

lemma payload_simps [simp]:
  "payload (To_worker p (Queue_add d)) = d" "no_work x \<Longrightarrow> payload x = []"
  by (auto simp: payload_def no_work_def split: out.splits worker_request.splits)

lemma no_work_simps [simp]:
  "no_work (Stat c)" "no_work (Db_call q)" "no_work (Notify nt)" "no_work (Ask_veriflier v b)"
  "no_work (Set_timer t k)" "no_work (Fork p)" "no_work (Disconnect p)" "no_work (Exit k)" "no_work (Open_file j)" "no_work (Write_file fl ln)"
  "no_work (To_worker p Evaporate)" "no_work (To_worker p Config_update)"
  "\<not> no_work (To_worker p (Queue_add d))"
  by (simp_all add: no_work_def)

lemma good_out_simps [simp]:
  "no_work x \<Longrightarrow> good_out s x"
  "good_out s (To_worker p (Queue_add d)) \<longleftrightarrow> p \<in> pids s \<and> p \<notin> set (haltedWorkers s) \<and> fresh_payload d"
  by (auto simp: good_out_def no_work_def split: out.splits worker_request.splits)

section \<open>Effects without work\<close>

definition idle_effect :: "master \<Rightarrow> master \<Rightarrow> bool" where
  "idle_effect s t \<longleftrightarrow> arrObjects t = arrObjects s \<and> localRetries t = localRetries s \<and>
     arrWorkers t = arrWorkers s \<and> haltedWorkers t = haltedWorkers s \<and> conf t = conf s \<and>
     (\<exists>xs. outs t = outs s @ xs \<and> (\<forall>x \<in> set xs. no_work x))"

lemma idle_refl [simp]: "idle_effect s s"
  by (simp add: idle_effect_def)

lemma idle_trans:
  assumes "idle_effect s t" and "idle_effect t u"
  shows "idle_effect s u"
proof -
  obtain xs ys where "outs t = outs s @ xs" "\<forall>x \<in> set xs. no_work x"
      "outs u = outs t @ ys" "\<forall>x \<in> set ys. no_work x"
    using assms by (auto simp: idle_effect_def)
  then have "outs u = outs s @ (xs @ ys) \<and> (\<forall>x \<in> set (xs @ ys). no_work x)" by auto
  then have "\<exists>zs. outs u = outs s @ zs \<and> (\<forall>x \<in> set zs. no_work x)" by blast
  with assms show ?thesis by (simp add: idle_effect_def)
qed

lemma idle_emit: "no_work x \<Longrightarrow> idle_effect s (emit x s)"
  by (simp add: idle_effect_def)

lemma idle_increment [simp]: "idle_effect s (increment m v s)"
  by (simp add: increment_def idle_emit)

lemma idle_notify [simp]: "idle_effect s (notify v st s)"
proof -
  obtain d calls n where "notifyStatusChange (conf s) v st (database s) = (d, calls, n)"
    by (metis surj_pair)
  then have "outs (notify v st s) = outs s @ map Db_call calls @ [Notify n]"
    by (simp add: notify_def)
  then show ?thesis by (fastforce simp: idle_effect_def)
qed

lemma idle_announce [simp]: "idle_effect s (announce k v st s)"
proof -
  have "idle_effect s (s\<lparr>openNotices := os\<rparr>)" for os by (simp add: idle_effect_def)
  from idle_trans [OF this idle_notify] show ?thesis by (simp add: announce_def)
qed

lemma idle_notify_again [simp]: "idle_effect s (notify_again i s)"
  by (simp add: notify_again_def Let_def)

lemma idle_getMoreSites [simp]: "idle_effect s (getMoreSites now s)"
proof -
  have "\<exists>xs. outs (getMoreSites now s) = outs s @ xs \<and> (\<forall>x \<in> set xs. no_work x)"
    by (auto simp: getMoreSites_def Let_def split_beta)
  then show ?thesis
    by (auto simp: idle_effect_def) (auto simp: getMoreSites_def Let_def split_beta emit_calls_def)
qed

lemma idle_maybeEndRound [simp]: "idle_effect s (maybeEndRound now s)"
  by (auto simp: maybeEndRound_def Let_def idle_effect_def)

section \<open>Serving\<close>

definition serves :: "master \<Rightarrow> master \<Rightarrow> bool" where
  "serves s t \<longleftrightarrow> arrWorkers t = arrWorkers s \<and> haltedWorkers t = haltedWorkers s \<and> conf t = conf s \<and>
     sites_inv t \<and> stock t = stock s \<and> (\<exists>xs. outs t = outs s @ xs \<and> (\<forall>x \<in> set xs. good_out s x))"

lemma serves_idle:
  assumes "idle_effect s t" and "sites_inv s"
  shows "serves s t"
proof -
  obtain xs where xs: "outs t = outs s @ xs" "\<forall>x \<in> set xs. no_work x"
    using assms(1) by (auto simp: idle_effect_def)
  then have "concat (map payload xs) = []" by simp
  with xs assms have "stock t = stock s" by (simp add: stock_def handed_def idle_effect_def)
  moreover have "\<exists>ys. outs t = outs s @ ys \<and> (\<forall>x \<in> set ys. good_out s x)" using xs by auto
  ultimately show ?thesis using assms by (simp add: serves_def idle_effect_def sites_inv_def)
qed

lemma serves_trans:
  assumes "serves s t" and "serves t u"
  shows "serves s u"
proof -
  obtain xs ys where x: "outs t = outs s @ xs" "\<forall>x \<in> set xs. good_out s x"
      "outs u = outs t @ ys" "\<forall>x \<in> set ys. good_out t x"
    using assms by (auto simp: serves_def)
  have "good_out t = good_out s"
    using assms(1) unfolding serves_def good_out_def [abs_def] pids_def by simp
  with x have "outs u = outs s @ (xs @ ys) \<and> (\<forall>x \<in> set (xs @ ys). good_out s x)" by auto
  then have "\<exists>zs. outs u = outs s @ zs \<and> (\<forall>x \<in> set zs. good_out s x)" by blast
  with assms show ?thesis by (simp add: serves_def)
qed

lemma serves_sites: "serves s t \<Longrightarrow> sites_inv t"
  by (simp add: serves_def)

lemma serves_free: "sites_inv s \<Longrightarrow> serves s (s\<lparr>freeWorkers := fs\<rparr>)"
  by (rule serves_idle) (simp_all add: idle_effect_def)

lemma serves_assign:
  assumes "sites_inv s"
  shows "serves s (assign_work_to_worker p sz s)"
proof (cases "getWorker p s = None \<or> p \<in> set (haltedWorkers s)")
  case True
  with assms serves_idle [OF idle_refl] show ?thesis
    by (auto simp: assign_work_to_worker_def split: option.split)
next
  case False
  then obtain w where w: "getWorker p s = Some w" "p \<notin> set (haltedWorkers s)" by auto
  obtain d t where d: "get_work_dataset sz s = (d, t)" by (metis surj_pair)
  note f = get_work_dataset_pool [OF d]
  have st: "sites_inv t" using assms f by (auto simp: sites_inv_def)
  have eq: "assign_work_to_worker p sz s =
      (if d = [] then t else emit (To_worker (proc_pid w) (Queue_add d)) t)"
    using w d by (simp add: assign_work_to_worker_def)
  show ?thesis
  proof (cases "d = []")
    case True
    have "idle_effect s t" using f True by (simp add: idle_effect_def)
    from serves_idle [OF this assms] show ?thesis using eq True by simp
  next
    case False
    have g: "good_out s (To_worker (proc_pid w) (Queue_add d))"
      using getWorker_pid [OF w(1)] w(2) assms f False by (auto simp: fresh_payload_def sites_inv_def)
    have "stock (emit (To_worker (proc_pid w) (Queue_add d)) t) = stock s"
      using f by (simp add: stock_def handed_def ac_simps)
    with g f st eq False show ?thesis by (simp add: serves_def sites_inv_def)
  qed
qed

lemma serves_send_work:
  assumes "sites_inv s"
  shows "serves s (send_work now p s)"
proof -
  consider (surplus) "int (length (arrWorkers s)) > NUM_WORKERS (conf s)"
    | (idle) "\<not> int (length (arrWorkers s)) > NUM_WORKERS (conf s)" "arrObjects s = []"
    | (work) "\<not> int (length (arrWorkers s)) > NUM_WORKERS (conf s)" "arrObjects s \<noteq> []"
    by blast
  then show ?thesis
  proof cases
    case surplus
    then have "idle_effect s (send_work now p s)"
      by (simp add: send_work_def idle_emit split: option.split)
    then show ?thesis using assms by (rule serves_idle)
  next
    case idle
    define s1 where "s1 = (if p \<notin> set (haltedWorkers s) \<and> p \<notin> set (freeWorkers s)
                  then s\<lparr>freeWorkers := freeWorkers s @ [p]\<rparr> else s)"
    have 1: "idle_effect s s1" "idle_effect s1 (s1\<lparr>gettingSites := True\<rparr>)"
      by (simp_all add: idle_effect_def s1_def)
    define s2 where "s2 = (if \<not> gettingSites s1 then getMoreSites now (s1\<lparr>gettingSites := True\<rparr>) else s1)"
    have "idle_effect s s2"
      using idle_trans [OF 1(1) idle_trans [OF 1(2) idle_getMoreSites]] 1(1) by (simp add: s2_def)
    from idle_trans [OF this idle_maybeEndRound] have "idle_effect s (send_work now p s)"
      using idle by (simp add: send_work_def Let_def s1_def [symmetric] s2_def)
    then show ?thesis using assms by (rule serves_idle)
  next
    case work
    with assms show ?thesis by (simp add: send_work_def serves_assign)
  qed
qed

lemma serves_ask_each: "sites_inv s \<Longrightarrow> serves s (ask_each now ps s)"
proof (induction ps arbitrary: s)
  case Nil
  then show ?case using serves_idle [OF idle_refl] by simp
next
  case (Cons p ps)
  have 1: "serves s (if getWorker p s \<noteq> None then send_work now p s else s)"
    using Cons.prems serves_send_work serves_idle [OF idle_refl] by auto
  from serves_trans [OF 1 Cons.IH [OF serves_sites [OF 1]]] show ?case by simp
qed

lemma serves_freeWorkersToWork: "sites_inv s \<Longrightarrow> serves s (freeWorkersToWork now s)"
proof -
  assume s: "sites_inv s"
  have 1: "serves s (s\<lparr>freeWorkers := []\<rparr>)" by (rule serves_free [OF s])
  from serves_trans [OF 1 serves_ask_each [OF serves_sites [OF 1]]] s serves_idle [OF idle_refl]
  show ?thesis by (simp add: freeWorkersToWork_def)
qed

section \<open>The ticks\<close>

lemma first_live_Some:
  "first_live s ps = Some i \<Longrightarrow> i < length ps \<and> getWorker (ps ! i) s \<noteq> None"
  by (induction ps arbitrary: i) (auto split: if_splits)

lemma first_live_None: "first_live s ps = None \<longleftrightarrow> (\<forall>p \<in> set ps. getWorker p s = None)"
  by (induction ps) auto

definition tick_inv :: "master \<Rightarrow> bool" where
  "tick_inv s \<longleftrightarrow> pool_inv s \<and> sites_inv s"

lemma drop_index_simps:
  assumes "k < length xs"
  shows "mset (snd (splice_at k 1 xs)) + {# xs ! k #} = mset xs"
    and "set (snd (splice_at k 1 xs)) \<subseteq> set xs" and "length (snd (splice_at k 1 xs)) = length xs - 1"
    and "distinct xs \<Longrightarrow> distinct (snd (splice_at k 1 xs))"
proof -
  have e: "xs = take k xs @ xs ! k # drop (Suc k) xs"
    using assms by (simp add: id_take_nth_drop)
  have s: "snd (splice_at k 1 xs) = take k xs @ drop (Suc k) xs"
    by (simp add: splice_at_def)
  have "mset xs = mset (take k xs @ xs ! k # drop (Suc k) xs)" using e by simp
  then show "mset (snd (splice_at k 1 xs)) + {# xs ! k #} = mset xs" using s by simp
  have "set xs = set (take k xs @ xs ! k # drop (Suc k) xs)" using e by simp
  then show "set (snd (splice_at k 1 xs)) \<subseteq> set xs" using s by auto
  show "length (snd (splice_at k 1 xs)) = length xs - 1" using assms s by simp
  assume "distinct xs"
  then have "distinct (take k xs @ xs ! k # drop (Suc k) xs)" using e by simp
  then show "distinct (snd (splice_at k 1 xs))" using s by auto
qed

text \<open>One site of the local retries goes to a free worker, or into the queue where there is none.\<close>

definition direct :: "nat \<Rightarrow> nat \<Rightarrow> master \<Rightarrow> master" where
  "direct k i s = (emit (To_worker (freeWorkers s ! i) (Queue_add [localRetries s ! k]))
      (s\<lparr>localRetries := snd (splice_at k 1 (localRetries s))\<rparr>))
      \<lparr>freeWorkers := snd (splice_at i 1 (freeWorkers s))\<rparr>"

definition requeue :: "nat \<Rightarrow> master \<Rightarrow> master" where
  "requeue k s = s\<lparr>localRetries := snd (splice_at k 1 (localRetries s)),
                  arrObjects := arrObjects s @ [localRetries s ! k]\<rparr>"

lemma local_loop_Suc:
  "local_loop now (Suc k) b s =
     (if too_early (conf s) now (localRetries s ! k) then local_loop now k b s
      else case first_live s (freeWorkers s) of
        Some i \<Rightarrow> local_loop now k b (direct k i s)
      | None \<Rightarrow> local_loop now k True (requeue k s))"
  by (simp add: Let_def direct_def requeue_def split: option.split)

lemma direct_step:
  assumes "tick_inv s" and "k < length (localRetries s)" and "first_live s (freeWorkers s) = Some i"
  shows "serves s (direct k i s)" and "pool_inv (direct k i s)"
    and "known_free s \<Longrightarrow> known_free (direct k i s)"
    and "length (localRetries (direct k i s)) = length (localRetries s) - 1"
proof -
  define r where "r = snd (splice_at k 1 (localRetries s))"
  define f where "f = snd (splice_at i 1 (freeWorkers s))"
  have i: "i < length (freeWorkers s)" "freeWorkers s ! i \<in> pids s"
    using first_live_Some [OF assms(3)] getWorker_iff by blast+
  then have p: "freeWorkers s ! i \<notin> set (haltedWorkers s)"
    using assms(1) nth_mem [OF i(1)] unfolding tick_inv_def pool_inv_def by blast
  note r = drop_index_simps [OF assms(2), folded r_def]
  note f = drop_index_simps [OF i(1), folded f_def]
  have sv: "localRetries s ! k \<in> set (localRetries s)" using assms(2) by simp
  have d: "direct k i s = (emit (To_worker (freeWorkers s ! i) (Queue_add [localRetries s ! k]))
      (s\<lparr>localRetries := r\<rparr>))\<lparr>freeWorkers := f\<rparr>"
    by (simp add: direct_def r_def f_def)
  have "stock (direct k i s) = stock s"
    using r(1) by (simp add: d stock_def handed_def flip: r(1))
  moreover have "sites_inv (direct k i s)"
    using assms(1) r(2) by (auto simp: d sites_inv_def tick_inv_def)
  ultimately show "serves s (direct k i s)"
    using assms(1) sv i p by (auto simp: serves_def d fresh_payload_def tick_inv_def sites_inv_def)
  show "pool_inv (direct k i s)"
    using assms(1) f(2,4) by (auto simp: d tick_inv_def pool_inv_def pids_def)
  show "known_free s \<Longrightarrow> known_free (direct k i s)"
    using f(2) by (auto simp: d known_free_def pids_def)
  show "length (localRetries (direct k i s)) = length (localRetries s) - 1"
    using r(3) by (simp add: d)
qed

lemma requeue_step:
  assumes "tick_inv s" and "k < length (localRetries s)" and "first_live s (freeWorkers s) = None"
  shows "serves s (requeue k s)" and "pool_inv (requeue k s)"
    and "known_free s \<Longrightarrow> known_free (requeue k s)"
    and "length (localRetries (requeue k s)) = length (localRetries s) - 1"
proof -
  define r where "r = snd (splice_at k 1 (localRetries s))"
  note r = drop_index_simps [OF assms(2), folded r_def]
  have q: "requeue k s = s\<lparr>localRetries := r, arrObjects := arrObjects s @ [localRetries s ! k]\<rparr>"
    by (simp add: requeue_def r_def)
  have sv: "localRetries s ! k \<in> set (localRetries s)" using assms(2) by simp
  have "stock (requeue k s) = stock s"
    by (simp add: q stock_def handed_def ac_simps flip: r(1))
  then show "serves s (requeue k s)"
    using assms(1) sv r(2) by (auto simp: serves_def q tick_inv_def sites_inv_def)
  have "set (freeWorkers s) \<inter> pids s = {}"
    using assms(1,3) getWorker_known unfolding first_live_None tick_inv_def by blast
  then show "pool_inv (requeue k s)"
    using assms(1) by (simp add: q tick_inv_def pool_inv_def pids_def)
  show "known_free s \<Longrightarrow> known_free (requeue k s)"
    by (simp add: q known_free_def pids_def)
  show "length (localRetries (requeue k s)) = length (localRetries s) - 1"
    using r(3) by (simp add: q)
qed

lemma local_loop_inv:
  assumes "tick_inv s" and "k \<le> length (localRetries s)" and "local_loop now k b s = (b', t)"
  shows "serves s t \<and> tick_inv t \<and> (known_free s \<longrightarrow> known_free t)"
  using assms
proof (induction k arbitrary: b s)
  case 0
  then show ?case using serves_idle [OF idle_refl] by (simp add: tick_inv_def)
next
  case (Suc k)
  have k: "k < length (localRetries s)" using Suc.prems by simp
  consider (early) "too_early (conf s) now (localRetries s ! k)"
    | (live) i where "\<not> too_early (conf s) now (localRetries s ! k)" "first_live s (freeWorkers s) = Some i"
    | (none) "\<not> too_early (conf s) now (localRetries s ! k)" "first_live s (freeWorkers s) = None"
    by fastforce
  then show ?case
  proof cases
    case early
    with Suc.prems k show ?thesis by (intro Suc.IH) (simp_all add: local_loop_Suc del: local_loop.simps)
  next
    case (live i)
    note d = direct_step [OF Suc.prems(1) k live(2)]
    have l: "local_loop now k b (direct k i s) = (b', t)"
      using Suc.prems(3) live by (simp add: local_loop_Suc del: local_loop.simps)
    have "tick_inv (direct k i s)" using d(1,2) serves_sites by (simp add: tick_inv_def)
    from Suc.IH [OF this _ l] d k serves_trans show ?thesis by auto
  next
    case none
    note d = requeue_step [OF Suc.prems(1) k none(2)]
    have l: "local_loop now k True (requeue k s) = (b', t)"
      using Suc.prems(3) none by (simp add: local_loop_Suc del: local_loop.simps)
    have "tick_inv (requeue k s)" using d(1,2) serves_sites by (simp add: tick_inv_def)
    from Suc.IH [OF this _ l] d k serves_trans show ?thesis by auto
  qed
qed

lemma local_tick_inv:
  assumes "tick_inv s"
  shows "serves s (local_tick now s) \<and> tick_inv (local_tick now s) \<and>
     (known_free s \<longrightarrow> known_free (local_tick now s))"
proof -
  obtain b t where t: "local_loop now (length (localRetries s)) False s = (b, t)" by (metis surj_pair)
  note 1 = local_loop_inv [OF assms order_refl t]
  have f: "serves t (freeWorkersToWork now t)"
    using 1 by (intro serves_freeWorkersToWork) (simp add: tick_inv_def)
  have "pool_inv (freeWorkersToWork now t)"
    using 1 by (intro freeWorkersToWork_inv) (simp_all add: tick_inv_def pool_inv_def pids_def)
  with 1 f serves_trans [of s t] serves_sites [OF f] freeWorkersToWork_known t
  show ?thesis by (simp add: local_tick_def tick_inv_def)
qed

lemma idle_ask_verifliers: "idle_effect s (ask_verifliers b s)"
proof -
  have "idle_effect s (fold (\<lambda>v. emit (Ask_veriflier v b)) vs s)" for vs
  proof (induction vs arbitrary: s)
    case (Cons v vs)
    have "idle_effect s (emit (Ask_veriflier v b) s)" by (rule idle_emit) simp
    from idle_trans [OF this Cons.IH] show ?case by simp
  qed simp
  then show ?thesis by (simp add: ask_verifliers_def)
qed

lemma ask_verifliers_free [simp]: "freeWorkers (ask_verifliers b s) = freeWorkers s"
proof -
  have "freeWorkers (fold (\<lambda>v. emit (Ask_veriflier v b)) vs s) = freeWorkers s" for vs
    by (induction vs arbitrary: s) simp_all
  then show ?thesis by (simp add: ask_verifliers_def)
qed

lemma idle_fold_ask: "idle_effect s (fold ask_verifliers bs s) \<and> freeWorkers (fold ask_verifliers bs s) = freeWorkers s"
proof (induction bs arbitrary: s)
  case (Cons b bs)
  with idle_trans [OF idle_ask_verifliers [of s b], of "fold ask_verifliers bs (ask_verifliers b s)"]
  show ?case by simp
qed simp

lemma idle_remote_tick:
  assumes "remote_tick now s = Some t"
  shows "idle_effect s t \<and> freeWorkers t = freeWorkers s"
proof -
  obtain q bs where t: "t = fold ask_verifliers bs (s\<lparr>queuedRetries := q\<rparr>)"
    using assms by (auto simp: remote_tick_def Let_def split: prod.splits option.splits)
  have "idle_effect s (s\<lparr>queuedRetries := q\<rparr>)" by (simp add: idle_effect_def)
  with idle_trans idle_fold_ask [of "s\<lparr>queuedRetries := q\<rparr>" bs] show ?thesis by (auto simp: t)
qed

lemma idle_pool:
  "idle_effect s t \<Longrightarrow> freeWorkers t = freeWorkers s \<Longrightarrow> same_pool s t"
  by (simp add: idle_effect_def same_pool_def)

lemma tick_step:
  assumes "tick_inv s" and "processQueuedRetries now s = Some t"
  shows "serves s t \<and> tick_inv t \<and> (known_free s \<longrightarrow> known_free t)"
proof -
  obtain u where u: "remote_tick now s = Some u" "t = local_tick now u"
    using assms(2) by (auto simp: processQueuedRetries_def)
  have i: "idle_effect s u" "freeWorkers u = freeWorkers s" using idle_remote_tick [OF u(1)] by simp_all
  then have su: "serves s u" "same_pool s u"
    using assms(1) serves_idle idle_pool by (simp_all add: tick_inv_def)
  then have "tick_inv u" using assms(1) same_pool_inv serves_sites by (auto simp: tick_inv_def)
  from local_tick_inv [OF this] u(2) su serves_trans same_pool_known show ?thesis by blast
qed

end
