(* ===== verification/Retry_Lemmas.thy ===== *)
theory Retry_Lemmas
  imports Master_Work
begin

text \<open>
  What the five second tick and the answers of the verifliers do to the queues, as functional
  specifications of the loops of the source: the loop over the veriflier queue is a filter and a
  map, the batches are a partition, the loop over the local retries keeps the ones that are too
  early, and an answer changes the first entry about its site only.
\<close>

section \<open>The veriflier queue\<close>

text \<open>What the tick keeps of the queue, and what it sends.\<close>

definition unsent :: "retry list \<Rightarrow> retry list" where
  "unsent q = filter (\<lambda>r. \<not> requests_sent r) q"

definition kept :: "config \<Rightarrow> int \<Rightarrow> retry list \<Rightarrow> retry list" where
  "kept c now q =
     map (\<lambda>r. if requests_sent r then r else asked (int (length (VERIFIERS c))) r)
       (filter (\<lambda>r. requests_sent r \<longrightarrow> \<not> finished c now r) q)"

lemma unsent_append [simp]: "unsent (xs @ ys) = unsent xs @ unsent ys"
  by (simp add: unsent_def)

lemma kept_append [simp]: "kept c now (xs @ ys) = kept c now xs @ kept c now ys"
  by (simp add: kept_def)

lemma retry_loop_parts:
  "n \<le> length q \<Longrightarrow> retry_loop c now n q sending =
     (kept c now (take n q) @ drop n q,
      sending @ map (asked (int (length (VERIFIERS c)))) (rev (unsent (take n q))))"
proof (induction n arbitrary: q sending)
  case 0
  then show ?case by (simp add: kept_def unsent_def)
next
  case (Suc n)
  define p where "p = int (length (VERIFIERS c))"
  have n: "n < length q" using Suc.prems by simp
  have t: "take (Suc n) q = take n q @ [q ! n]" using n by (simp add: take_Suc_conv_app_nth)
  have d: "drop n q = q ! n # drop (Suc n) q" using n by (simp add: Cons_nth_drop_Suc)
  consider (new) "\<not> requests_sent (q ! n)" | (old) "requests_sent (q ! n)" "finished c now (q ! n)"
    | (wait) "requests_sent (q ! n)" "\<not> finished c now (q ! n)" by blast
  then show ?case
  proof cases
    case new
    have u: "take n (q[n := asked p (q ! n)]) = take n q"
        "drop n (q[n := asked p (q ! n)]) = asked p (q ! n) # drop (Suc n) q"
      using n by (simp_all add: drop_update_swap d)
    show ?thesis
      using new n Suc.IH [of "q[n := asked p (q ! n)]" "sending @ [asked p (q ! n)]"]
      by (simp add: Let_def t u kept_def unsent_def flip: p_def)
  next
    case old
    have s: "snd (splice_at n 1 q) = take n q @ drop (Suc n) q" by (simp add: splice_at_def)
    have "n \<le> length (snd (splice_at n 1 q))" using n unfolding s by simp
    from Suc.IH [OF this] old n show ?thesis
      by (simp add: Let_def t s [simplified] kept_def unsent_def)
  next
    case wait
    with n Suc.IH [of q sending] show ?thesis
      by (simp add: Let_def t d kept_def unsent_def)
  qed
qed

lemma retry_loop_spec:
  "retry_loop c now (length q) q [] =
     (kept c now q, map (asked (int (length (VERIFIERS c)))) (rev (unsent q)))"
  using retry_loop_parts [of "length q" q] by simp

section \<open>The batches\<close>

lemma batch_loop_partition:
  assumes "0 < b"
  shows "\<exists>bs. batch_loop b (int (length xs) - 1) xs acc = Some (acc @ bs) \<and> concat (rev bs) = xs \<and>
    (\<forall>x \<in> set bs. x \<noteq> [] \<and> int (length x) \<le> b)"
proof (induction "length xs" arbitrary: xs acc rule: less_induct)
  case less
  show ?case
  proof (cases "xs = []")
    case True
    then show ?thesis by (subst batch_loop.simps) simp
  next
    case False
    define n where "n = nat (min b (int (length xs)))"
    have n: "0 < n" "n \<le> length xs" "int n \<le> b" using assms False by (auto simp: n_def)
    define k where "k = length xs - n"
    have k: "k < length xs" "length (take k xs) = k" using n by (simp_all add: k_def)
    have spl: "splice_at (nat (int (length xs) - int n)) (nat (int n)) xs = (drop k xs, take k xs)"
      using n by (simp add: splice_at_def k_def nat_diff_distrib)
    have m: "min b (int (length xs)) = int n" using assms by (simp add: n_def)
    have step: "batch_loop b (int (length xs) - 1) xs acc =
        batch_loop b (int (length xs) - 1 - b) (take k xs) (acc @ [drop k xs])"
      using False spl by (subst batch_loop.simps) (simp add: m Let_def)
    have bs: "\<exists>bs. batch_loop b (int (length xs) - 1 - b) (take k xs) (acc @ [drop k xs]) =
        Some ((acc @ [drop k xs]) @ bs) \<and> concat (rev bs) = take k xs \<and>
        (\<forall>x \<in> set bs. x \<noteq> [] \<and> int (length x) \<le> b)"
    proof (cases "b \<le> int (length xs)")
      case True
      then have e: "int (length xs) - 1 - b = int (length (take k xs)) - 1"
        using n by (simp add: k_def n_def)
      from k have "length (take k xs) < length xs" by simp
      from less.hyps [OF this, of "acc @ [drop k xs]"] show ?thesis unfolding e .
    next
      case False
      then have "take k xs = []" "\<not> 0 \<le> int (length xs) - 1 - b"
        using assms by (simp_all add: k_def n_def)
      then show ?thesis by (subst batch_loop.simps) simp
    qed
    then obtain bs where b: "batch_loop b (int (length xs) - 1 - b) (take k xs) (acc @ [drop k xs]) =
        Some ((acc @ [drop k xs]) @ bs)" "concat (rev bs) = take k xs"
        "\<forall>x \<in> set bs. x \<noteq> [] \<and> int (length x) \<le> b"
      by blast
    have "drop k xs \<noteq> []" "int (length (drop k xs)) \<le> b" using n k by (simp_all add: k_def)
    with b show ?thesis by (intro exI [of _ "drop k xs # bs"]) (simp add: step)
  qed
qed

text \<open>A negative batch size makes the loop run for ever: no result has it.\<close>

lemma batch_loop_negative:
  assumes "b < 0" and "0 \<le> loop"
  shows "batch_loop b loop xs acc = None"
proof (rule ccontr)
  assume "batch_loop b loop xs acc \<noteq> None"
  then obtain bs where "batch_loop b loop xs acc = Some bs" by blast
  then have "\<not> (b < 0 \<and> 0 \<le> loop)"
  proof (rule batch_loop.raw_induct [rotated])
    fix bl b loop bs and xs :: "retry list" and acc :: "retry list list"
    assume IH: "\<And>b loop xs acc bs. bl b loop xs acc = Some bs \<Longrightarrow> \<not> (b < 0 \<and> 0 \<le> loop)"
      and st: "(if 0 \<le> loop
         then let n = min b (int (length xs));
                  (batchData, rest) = splice_at (nat (int (length xs) - n)) (nat n) xs
              in bl b (loop - b) rest (acc @ [batchData])
         else Some acc) = Some bs"
    show "\<not> (b < 0 \<and> 0 \<le> loop)"
    proof
      assume a: "b < 0 \<and> 0 \<le> loop"
      then obtain ys zs where "bl b (loop - b) ys zs = Some bs"
        using st by (auto simp: Let_def split: prod.splits)
      from IH [OF this] a show False by simp
    qed
  qed
  with assms show False by simp
qed

section \<open>Asking the verifliers\<close>

text \<open>The entries in the requests to one veriflier.\<close>

definition entries_for :: "verifier \<Rightarrow> out \<Rightarrow> retry list" where
  "entries_for v x = (case x of Ask_veriflier u b \<Rightarrow> if u = v then b else [] | _ \<Rightarrow> [])"

definition sent_to :: "verifier \<Rightarrow> out list \<Rightarrow> retry list" where
  "sent_to v xs = concat (map (entries_for v) xs)"

lemma entries_for_simps [simp]:
  "entries_for v (Ask_veriflier u b) = (if u = v then b else [])"
  by (simp add: entries_for_def)

lemma sent_to_simps [simp]:
  "sent_to v [] = []" "sent_to v (x # xs) = entries_for v x @ sent_to v xs"
  "sent_to v (xs @ ys) = sent_to v xs @ sent_to v ys"
  by (simp_all add: sent_to_def)

lemma outs_ask_verifliers:
  "outs (ask_verifliers b s) = outs s @ map (\<lambda>v. Ask_veriflier v b) (VERIFIERS (conf s))"
proof -
  have "outs (fold (\<lambda>v. emit (Ask_veriflier v b)) vs s) = outs s @ map (\<lambda>v. Ask_veriflier v b) vs" for vs
    by (induction vs arbitrary: s) simp_all
  then show ?thesis by (simp add: ask_verifliers_def)
qed

lemma ask_verifliers_frame [simp]:
  "conf (ask_verifliers b s) = conf s" "queuedRetries (ask_verifliers b s) = queuedRetries s"
  "localRetries (ask_verifliers b s) = localRetries s" "arrObjects (ask_verifliers b s) = arrObjects s"
  "peerLimit (ask_verifliers b s) = peerLimit s"
proof -
  have "same_master s (fold (\<lambda>v. emit (Ask_veriflier v b)) vs s)" for vs
  proof (induction vs arbitrary: s)
    case (Cons v vs)
    from same_trans [OF same_emit Cons.IH] show ?case by simp
  qed simp
  note same_masterD [OF this, of "VERIFIERS (conf s)"]
  then show "conf (ask_verifliers b s) = conf s" "queuedRetries (ask_verifliers b s) = queuedRetries s"
    "localRetries (ask_verifliers b s) = localRetries s" "arrObjects (ask_verifliers b s) = arrObjects s"
    "peerLimit (ask_verifliers b s) = peerLimit s"
    by (simp_all add: ask_verifliers_def)
qed

lemma fold_ask_frame [simp]:
  "conf (fold ask_verifliers bs s) = conf s" "queuedRetries (fold ask_verifliers bs s) = queuedRetries s"
  "localRetries (fold ask_verifliers bs s) = localRetries s"
  "arrObjects (fold ask_verifliers bs s) = arrObjects s" "peerLimit (fold ask_verifliers bs s) = peerLimit s"
  by (induction bs arbitrary: s) simp_all

lemma mset_sent_round:
  "mset (sent_to v (map (\<lambda>u. Ask_veriflier u b) vs)) = repeat_mset (count_list vs v) (mset b)"
  by (induction vs) (simp_all add: repeat_mset_distrib)

lemma outs_fold_ask:
  "outs (fold ask_verifliers bs s) =
     outs s @ concat (map (\<lambda>b. map (\<lambda>v. Ask_veriflier v b) (VERIFIERS (conf s))) bs)"
  by (induction bs arbitrary: s) (simp_all add: outs_ask_verifliers)

lemma mset_sent_all:
  "mset (sent_to v (concat (map (\<lambda>b. map (\<lambda>u. Ask_veriflier u b) vs) bs))) =
     repeat_mset (count_list vs v) (mset (concat bs))"
  by (induction bs) (simp_all add: mset_sent_round)

lemma mset_concat_rev: "mset (concat (rev bs)) = mset (concat bs)"
  by (induction bs) simp_all

lemma remote_tick_spec:
  assumes "remote_tick now s = Some t"
  shows "\<exists>bs. t = fold ask_verifliers bs (s\<lparr>queuedRetries := kept (conf s) now (queuedRetries s)\<rparr>) \<and>
     batch_loop (js_or (VERIFLIER_BATCH_SIZE (conf s)) 200) (int (length (unsent (queuedRetries s))) - 1)
       (map (asked (int (length (VERIFIERS (conf s))))) (rev (unsent (queuedRetries s)))) [] = Some bs"
  using assms unfolding remote_tick_def retry_loop_spec
  by (auto simp: Let_def split: option.splits)

lemma remote_tick_returns:
  "remote_tick now s \<noteq> None \<longleftrightarrow>
     unsent (queuedRetries s) = [] \<or> 0 < js_or (VERIFLIER_BATCH_SIZE (conf s)) 200"
proof -
  define b where "b = js_or (VERIFLIER_BATCH_SIZE (conf s)) 200"
  define xs where "xs = map (asked (int (length (VERIFIERS (conf s))))) (rev (unsent (queuedRetries s)))"
  have b0: "b \<noteq> 0" by (auto simp: b_def js_or_def split: option.split)
  have r: "remote_tick now s \<noteq> None \<longleftrightarrow> batch_loop b (int (length xs) - 1) xs [] \<noteq> None"
    unfolding remote_tick_def retry_loop_spec
    by (simp add: Let_def b_def xs_def split: option.split del: not_None_eq)
  have "batch_loop b (int (length xs) - 1) xs [] \<noteq> None \<longleftrightarrow> xs = [] \<or> 0 < b"
  proof (cases "0 < b")
    case True
    with batch_loop_partition [OF True, of xs "[]"] show ?thesis by auto
  next
    case False
    with b0 have "b < 0" by simp
    then show ?thesis
      using batch_loop_negative [of b "int (length xs) - 1" xs "[]"]
      by (cases xs) (simp_all add: batch_loop.simps [of b "- 1"])
  qed
  then show ?thesis unfolding r by (simp add: xs_def b_def)
qed

section \<open>The local retries\<close>

text \<open>The counters of the status totals.\<close>

definition tallies :: "master \<Rightarrow> int \<times> int \<times> int \<times> int" where
  "tallies s = (gCountSuccess s, gCountError s, gCountOffline s, sitesCount s)"

lemma tallies_emit [simp]: "tallies (emit x s) = tallies s"
  by (simp add: tallies_def)

lemma local_loop_retries:
  assumes "k \<le> length (localRetries s)" and "local_loop now k b s = (b', t)"
  shows "conf t = conf s \<and> queuedRetries t = queuedRetries s \<and> peerLimit t = peerLimit s \<and>
    tallies t = tallies s \<and> retryCount t = retryCount s \<and> openNotices t = openNotices s \<and>
    localRetries t = filter (too_early (conf s) now) (take k (localRetries s)) @ drop k (localRetries s)"
  using assms
proof (induction k arbitrary: b s)
  case (Suc k)
  have k: "k < length (localRetries s)" using Suc.prems by simp
  have t: "take (Suc k) (localRetries s) = take k (localRetries s) @ [localRetries s ! k]"
    using k by (simp add: take_Suc_conv_app_nth)
  have d: "drop k (localRetries s) = localRetries s ! k # drop (Suc k) (localRetries s)"
    using k by (simp add: Cons_nth_drop_Suc)
  have spl: "snd (splice_at k 1 (localRetries s)) = take k (localRetries s) @ drop (Suc k) (localRetries s)"
    by (simp add: splice_at_def)
  have f: "localRetries (direct k i s) = take k (localRetries s) @ drop (Suc k) (localRetries s)"
      "conf (direct k i s) = conf s" "queuedRetries (direct k i s) = queuedRetries s"
      "peerLimit (direct k i s) = peerLimit s"
      "localRetries (requeue k s) = take k (localRetries s) @ drop (Suc k) (localRetries s)"
      "conf (requeue k s) = conf s" "queuedRetries (requeue k s) = queuedRetries s"
      "peerLimit (requeue k s) = peerLimit s"
      "tallies (direct k i s) = tallies s" "tallies (requeue k s) = tallies s"
      "retryCount (direct k i s) = retryCount s" "retryCount (requeue k s) = retryCount s"
      "openNotices (direct k i s) = openNotices s" "openNotices (requeue k s) = openNotices s" for i
    by (simp_all add: direct_def requeue_def tallies_def spl [simplified])
  show ?case
  proof (cases "too_early (conf s) now (localRetries s ! k)")
    case True
    with Suc.prems Suc.IH [of s b] k t d show ?thesis by (simp add: local_loop_Suc del: local_loop.simps)
  next
    case False
    show ?thesis
    proof (cases "first_live s (freeWorkers s)")
      case None
      with False Suc.prems have "local_loop now k True (requeue k s) = (b', t)"
        by (simp add: local_loop_Suc del: local_loop.simps)
      from Suc.IH [OF _ this] k False t f show ?thesis by simp
    next
      case (Some i)
      with False Suc.prems have "local_loop now k b (direct k i s) = (b', t)"
        by (simp add: local_loop_Suc del: local_loop.simps)
      from Suc.IH [OF _ this] k False t f show ?thesis by simp
    qed
  qed
qed simp

section \<open>Answers\<close>

text \<open>
  The position of the entry an answer is about: the first one for its site, where no comparison before
  throws.
\<close>

fun entry_at :: "host_status \<Rightarrow> retry list \<Rightarrow> nat option" where
  "entry_at data [] = None"
| "entry_at data (r # rs) =
     (case answers data r of
        Inl e \<Rightarrow> None
      | Inr about \<Rightarrow> if about then Some 0 else map_option Suc (entry_at data rs))"

definition is_offline :: "host_status \<Rightarrow> bool" where
  "is_offline data \<longleftrightarrow> found_offline (hs_status data) = Inr True"

definition answered :: "int \<Rightarrow> string \<Rightarrow> host_status \<Rightarrow> int \<Rightarrow> retry \<Rightarrow> retry" where
  "answered limit h data now r =
     (let r = take_answer h data now r;
          r = (if is_offline data then r\<lparr>offline_confirms := offline_confirms r + 1\<rparr> else r)
      in if is_offline data \<and> limit \<le> offline_confirms r
         then r\<lparr>retry_site_status := Some SITE_DOWN\<rparr> else r)"

lemma entry_at_Some: "entry_at data q = Some i \<Longrightarrow> i < length q \<and> answers data (q ! i) = Inr True"
  by (induction q arbitrary: i) (auto split: if_splits sum.splits)

lemma answer_loop_None:
  "entry_at data q = None \<Longrightarrow> \<exists>x. answer_loop limit h data now q = (q, x) \<and> (\<forall>r. x \<noteq> Inr (Some r))"
proof (induction q)
  case (Cons r q)
  then show ?case by (fastforce split: sum.splits if_splits)
qed simp

lemma answer_loop_Some:
  "entry_at data q = Some i \<Longrightarrow>
   answer_loop limit h data now q =
     (let r = answered limit h data now (q ! i)
      in (q[i := r],
          case found_offline (hs_status data) of
            Inl e \<Rightarrow> Inl e
          | Inr b \<Rightarrow> Inr (if b \<and> limit \<le> offline_confirms r then Some r else None)))"
proof (induction q arbitrary: i)
  case (Cons r q)
  then show ?case
    by (cases i) (auto simp: Let_def answered_def is_offline_def split: sum.splits if_splits)
qed simp

text \<open>The handler of one answer, by the entry it is about.\<close>

definition take_in :: "nat \<Rightarrow> retry \<Rightarrow> master \<Rightarrow> master" where
  "take_in i r s =
     (let q = (queuedRetries s)[i := r]
      in s\<lparr>queuedRetries := q, openNotices := refresh q (openNotices s)\<rparr>)"

lemma check_unknown:
  assumes "entry_at d (queuedRetries s) = None"
  shows "fst (checkHostStatus h d now s) = s\<lparr>openNotices := refresh (queuedRetries s) (openNotices s)\<rparr>"
proof -
  obtain x where x: "answer_loop (peerLimit s) h d now (queuedRetries s) = (queuedRetries s, x)"
      "\<forall>r. x \<noteq> Inr (Some r)"
    using answer_loop_None [OF assms] by blast
  then show ?thesis by (auto simp: checkHostStatus_def Let_def split: sum.split option.split)
qed

lemma check_known:
  assumes "entry_at d (queuedRetries s) = Some i"
  shows "fst (checkHostStatus h d now s) =
    (let r = answered (peerLimit s) h d now (queuedRetries s ! i); u = take_in i r s
     in if is_offline d \<and> peerLimit s \<le> offline_confirms r
        then announce (Some (retry_no r)) r SITE_DOWN u else u)"
    and "is_offline d \<Longrightarrow> snd (checkHostStatus h d now s) = None"
  by (auto simp: checkHostStatus_def answer_loop_Some [OF assms] take_in_def is_offline_def Let_def
      split: sum.split if_splits)

text \<open>A relation that each answer keeps, the array of answers keeps.\<close>

lemma check_each_closed:
  assumes "preorder_rel R" and "\<And>d u. R u (fst (checkHostStatus h d now u))"
  shows "R s (check_each h now ds s)"
proof (induction ds arbitrary: s)
  case Nil
  then show ?case using assms(1) by (simp add: preorder_rel_def)
next
  case (Cons d ds)
  obtain t x where t: "checkHostStatus h d now s = (t, x)" by (metis surj_pair)
  then have "R s t" using assms(2) [of s d] by simp
  moreover have "R t (check_each h now ds t)" by (rule Cons.IH)
  ultimately show ?case using assms(1) t by (auto simp: preorder_rel_def split: option.split)
qed

lemma check_each_inv:
  assumes "P s" and "\<And>d u. P u \<Longrightarrow> P (fst (checkHostStatus h d now u))"
  shows "P (check_each h now ds s)"
  using assms(1)
proof (induction ds arbitrary: s)
  case (Cons d ds)
  obtain t x where t: "checkHostStatus h d now s = (t, x)" by (metis surj_pair)
  then have "P t" using assms(2) [OF Cons.prems, of d] by simp
  then show ?case using Cons.IH t by (simp split: option.split)
qed simp

end
