(* ===== verification/Master_Run.thy ===== *)
theory Master_Run
  imports Retry_Lemmas
begin

text \<open>
  The master as a transition system: what its environment guarantees about the events, the
  invariant of the whole process, and its preservation by every event.
\<close>

section \<open>Effects that hand out nothing\<close>

definition quiet :: "master \<Rightarrow> master \<Rightarrow> bool" where
  "quiet s t \<longleftrightarrow> arrObjects t = arrObjects s \<and> localRetries t = localRetries s \<and>
     (\<exists>xs. outs t = outs s @ xs \<and> (\<forall>x \<in> set xs. no_work x))"

lemma idle_quiet: "idle_effect s t \<Longrightarrow> quiet s t"
  by (simp add: idle_effect_def quiet_def)

lemma quiet_refl [simp]: "quiet s s"
  by (simp add: quiet_def)

lemma quiet_trans:
  assumes "quiet s t" and "quiet t u"
  shows "quiet s u"
proof -
  obtain xs ys where "outs t = outs s @ xs" "\<forall>x \<in> set xs. no_work x"
      "outs u = outs t @ ys" "\<forall>x \<in> set ys. no_work x"
    using assms by (auto simp: quiet_def)
  then have "outs u = outs s @ (xs @ ys) \<and> (\<forall>x \<in> set (xs @ ys). no_work x)" by auto
  then have "\<exists>zs. outs u = outs s @ zs \<and> (\<forall>x \<in> set zs. no_work x)" by blast
  with assms show ?thesis by (simp add: quiet_def)
qed

lemma quiet_emit: "no_work x \<Longrightarrow> quiet s (emit x s)"
  by (simp add: quiet_def)

lemma quiet_increment [simp]: "quiet s (increment m v s)"
  by (simp add: quiet_def)

lemma quiet_update:
  "arrObjects t = arrObjects s \<Longrightarrow> localRetries t = localRetries s \<Longrightarrow> outs t = outs s \<Longrightarrow> quiet s t"
  by (simp add: quiet_def)

text \<open>The counters of what is outstanding are no part of it.\<close>

lemma quiet_due [simp]:
  "quiet (s\<lparr>roundTimers := n\<rparr>) t = quiet s t" "quiet (s\<lparr>restartTimers := n\<rparr>) t = quiet s t"
  "quiet (s\<lparr>queriesDue := n\<rparr>) t = quiet s t"
  by (simp_all add: quiet_def)

lemma quiet_deleteWorker [simp]: "quiet s (deleteWorker p s)"
  by (simp add: deleteWorker_def quiet_def Let_def)

lemma quiet_spawnWorker [simp]: "quiet s (spawnWorker p s)"
proof -
  define s1 where "s1 = increment ''worker.spawn.new.count'' 1 (emit (Fork p) s)"
  have "quiet s s1" by (simp add: s1_def quiet_def)
  moreover have "quiet (deleteWorker p s1) (spawnWorker p s)"
    by (simp add: spawnWorker_def Let_def s1_def quiet_update)
  ultimately show ?thesis using quiet_trans quiet_deleteWorker by blast
qed

lemma quiet_worker_exit: "quiet s (worker_exit p code e q s)"
proof (cases e)
  case False
  obtain m r where m: "exit_kind code = (m, r)" by (metis surj_pair)
  have 1: "quiet s (deleteWorker p (increment m 1 s))"
    using quiet_trans [OF quiet_increment quiet_deleteWorker] .
  have "worker_exit p code e q s =
      (if r then spawnWorker q (deleteWorker p (increment m 1 s)) else deleteWorker p (increment m 1 s))"
    using False m by (simp add: worker_exit_def)
  then show ?thesis using 1 quiet_trans [OF 1 quiet_spawnWorker] by simp
qed (simp add: worker_exit_def)

lemma quiet_preorder: "preorder_rel quiet"
  by (blast intro: preorder_relI quiet_trans quiet_refl)

lemmas quiet_fold = fold_closed [OF quiet_preorder]

lemma quiet_ensure: "quiet s (ensure_worker_count fresh b s)"
proof -
  have "quiet u (fold spawnWorker qs u)" for u qs by (rule quiet_fold) simp
  moreover have "quiet s (if \<not> b then increment m v s else s)" for m v by simp
  ultimately have "quiet s (fold spawnWorker qs (if \<not> b then increment m v s else s))" for qs m v
    using quiet_trans by blast
  then show ?thesis by (simp only: ensure_worker_count_def Let_def quiet_refl split: if_split) simp
qed

lemma quiet_stop_work: "quiet s (stop_work now p s)"
  unfolding stop_work_def
  by (rule quiet_trans [OF _ idle_quiet [OF idle_maybeEndRound]]) (simp add: quiet_def)

lemma quiet_reload: "quiet s (reload_signal fl s)"
proof (cases fl)
  case (Some c)
  have "quiet u (fold (\<lambda>w. emit (To_worker (proc_pid w) Config_update)) ws u)" for u ws
    by (rule quiet_fold) (simp add: quiet_emit)
  moreover have "quiet s (increment ''config_reload.count'' 1 (s\<lparr>conf := c\<rparr>))" by (simp add: quiet_def)
  ultimately have "quiet s (fold (\<lambda>w. emit (To_worker (proc_pid w) Config_update)) ws
      (increment ''config_reload.count'' 1 (s\<lparr>conf := c\<rparr>)))" for ws
    using quiet_trans by blast
  then show ?thesis using Some by (simp add: reload_signal_def Let_def)
qed (simp add: reload_signal_def)

lemma quiet_checkHostStatus: "quiet s (fst (checkHostStatus h d now s))"
proof -
  obtain q x where q: "answer_loop (peerLimit s) h d now (queuedRetries s) = (q, x)" by (metis surj_pair)
  define u where "u = s\<lparr>queuedRetries := q, openNotices := refresh q (openNotices s)\<rparr>"
  have 1: "quiet s u" by (simp add: quiet_update u_def)
  have "quiet s (announce (Some (retry_no r)) r SITE_DOWN u)" for r :: retry
    by (rule quiet_trans [OF 1 idle_quiet]) simp
  with 1 show ?thesis
    by (simp add: checkHostStatus_def q Let_def flip: u_def split: sum.split option.split)
qed

lemma quiet_ssl: "quiet s (sslWorkerCallBack now m s)"
  by (cases m) (auto intro: quiet_checkHostStatus check_each_closed [OF quiet_preorder])

lemma no_work_map_Stat [simp]: "\<forall>x \<in> set (map Stat cs). no_work x"
  by simp

lemma idle_emit_stats [simp]: "idle_effect s (emit_stats cs s)"
  by (simp add: idle_effect_def emit_stats_def)

lemma quiet_file_opened: "quiet s (file_opened j s)"
  by (auto simp: quiet_def) (auto simp: file_opened_def)

lemma idle_updateStats: "idle_effect s (updateStats now rss s)"
proof -
  have "idle_effect s (restart_if_late now s)"
    by (simp add: restart_if_late_def resetVariables_def Let_def idle_effect_def)
  moreover have "idle_effect (restart_if_late now s) (updateStats now rss s)"
    unfolding updateStats_def Let_def
    by (auto simp: idle_effect_def emit_stats_def)
  ultimately show ?thesis by (rule idle_trans)
qed

lemma idle_next_round: "idle_effect s (next_round_timer now s)"
proof -
  have "idle_effect s (resetVariables now s)" by (simp add: resetVariables_def idle_effect_def)
  then show ?thesis unfolding next_round_timer_def by (rule idle_trans) simp
qed

section \<open>Arrivals\<close>

text \<open>The sites an event brings into the master.\<close>

fun arrivals :: "master_event \<Rightarrow> master \<Rightarrow> site multiset" where
  "arrivals (Batch now started (None, Some rows)) s = mset (map site_of_row rows)"
| "arrivals (Worker_msg now (Recheck sv)) s =
     (if int (length (checks sv)) < NUM_OF_CHECKS (conf s) \<and> (\<forall>x \<in> set (localRetries s). \<not> same_site x sv)
      then {# sv\<lparr>processed := False\<rparr> #} else {#})"
| "arrivals e s = {#}"

definition accounted :: "site multiset \<Rightarrow> master \<Rightarrow> master \<Rightarrow> bool" where
  "accounted a s t \<longleftrightarrow> sites_inv t \<and> stock t = stock s + a \<and>
     (\<exists>xs. outs t = outs s @ xs \<and> (\<forall>x \<in> set xs. good_out s x))"

lemma good_out_due [simp]:
  "good_out (s\<lparr>roundTimers := n\<rparr>) = good_out s" "good_out (s\<lparr>restartTimers := n\<rparr>) = good_out s"
  "good_out (s\<lparr>queriesDue := n\<rparr>) = good_out s"
  by (rule ext, simp add: good_out_def pids_def split: out.split worker_request.split)+

lemma accounted_due [simp]:
  "accounted a (s\<lparr>roundTimers := n\<rparr>) t = accounted a s t"
  "accounted a (s\<lparr>restartTimers := n\<rparr>) t = accounted a s t"
  "accounted a (s\<lparr>queriesDue := n\<rparr>) t = accounted a s t"
  by (simp_all add: accounted_def stock_def handed_def)

lemma accounted_quiet:
  assumes "quiet s t" and "sites_inv s"
  shows "accounted {#} s t"
proof -
  obtain xs where xs: "outs t = outs s @ xs" "\<forall>x \<in> set xs. no_work x"
    using assms(1) by (auto simp: quiet_def)
  then have "concat (map payload xs) = []" by simp
  with xs assms have "stock t = stock s" by (simp add: stock_def handed_def quiet_def)
  moreover have "\<exists>ys. outs t = outs s @ ys \<and> (\<forall>x \<in> set ys. good_out s x)" using xs by auto
  ultimately show ?thesis using assms by (simp add: accounted_def quiet_def sites_inv_def)
qed

lemma accounted_serves: "serves s t \<Longrightarrow> accounted {#} s t"
  by (simp add: accounted_def serves_def)

lemma accounted_recheck:
  assumes "sites_inv s" and "by_workers sv"
  shows "accounted (arrivals (Worker_msg now (Recheck sv)) s) s (recheck now sv s)"
proof (cases "int (length (checks sv)) < NUM_OF_CHECKS (conf s) \<and> (\<forall>x \<in> set (localRetries s). \<not> same_site x sv)")
  case True
  with assms show ?thesis
    by (auto simp: accounted_def pristine_def by_workers_def recheck_def add_server_to_local_retries_def stock_def handed_def sites_inv_def)
next
  case False
  then have "quiet s (recheck now sv s)"
    by (auto simp: recheck_def add_server_to_local_retries_def host_check_request_def quiet_def)
  from accounted_quiet [OF this assms(1)] False show ?thesis by auto
qed

lemma site_of_row_fresh [simp]: "pristine (site_of_row r)"
  by (simp add: site_of_row_def pristine_def by_workers_def)

lemma accounted_batch:
  assumes "sites_inv s"
  shows "accounted (arrivals (Batch now started res) s) s (batch_result now started res s)"
proof -
  obtain err rows where r: "res = (err, rows)" by force
  consider (failed) e where "err = Some e" | (none) "err = None" "rows = None \<or> rows = Some []"
    | (rows) rs where "err = None" "rows = Some rs" "rs \<noteq> []"
    by (cases err; cases rows) blast+
  then show ?thesis
  proof cases
    case failed
    have "quiet s (batch_result now started res s)"
      using r failed by (simp add: batch_result_def batch_answer_def quiet_update)
    moreover have "arrivals (Batch now started res) s = {#}" using r failed by simp
    ultimately show ?thesis using accounted_quiet [OF _ assms] by simp
  next
    case none
    have e: "batch_result now started res s = getMoreSites now (s\<lparr>database := database s\<rparr>)"
      using r none by (auto simp: batch_result_def batch_answer_def batch_rows_def)
    have "quiet s (batch_result now started res s)" unfolding e by (simp add: idle_quiet)
    moreover have "arrivals (Batch now started res) s = {#}" using r none by auto
    ultimately show ?thesis using accounted_quiet [OF _ assms] by simp
  next
    case (rows rs)
    define u where "u = (timing ''db.get_next_batch'' (now - started) s)
        \<lparr>arrObjects := arrObjects s @ map site_of_row rs, gettingSites := False\<rparr>"
    have e: "batch_result now started res s = freeWorkersToWork now u"
      using r rows by (simp add: batch_result_def batch_answer_def batch_rows_def u_def)
    have "sites_inv u" using assms by (auto simp: u_def sites_inv_def)
    then have "serves u (freeWorkersToWork now u)" by (rule serves_freeWorkersToWork)
    then obtain xs where f: "sites_inv (freeWorkersToWork now u)" "stock (freeWorkersToWork now u) = stock u"
        "outs (freeWorkersToWork now u) = outs u @ xs" "\<forall>x \<in> set xs. good_out u x"
      by (auto simp: serves_def)
    have "good_out u = good_out s"
      unfolding good_out_def [abs_def] pids_def by (simp add: u_def)
    moreover have "outs u = outs s @ [Stat (Timing ''db.get_next_batch'' (VInt (now - started)))]"
      by (simp add: u_def)
    ultimately have "\<exists>ys. outs (freeWorkersToWork now u) = outs s @ ys \<and> (\<forall>x \<in> set ys. good_out s x)"
      using f by auto
    moreover have "stock u = stock s + mset (map site_of_row rs)"
      by (simp add: u_def stock_def handed_def payload_def ac_simps)
    ultimately show ?thesis using f r rows e by (simp add: accounted_def)
  qed
qed

section \<open>Effects that leave the queues of failures alone\<close>

definition same_retries :: "master \<Rightarrow> master \<Rightarrow> bool" where
  "same_retries s t \<longleftrightarrow> queuedRetries t = queuedRetries s \<and> peerLimit t = peerLimit s \<and> conf t = conf s \<and>
     localRetries t = localRetries s \<and> tallies t = tallies s \<and>
     retryCount t = retryCount s \<and> openNotices t = openNotices s"

lemma same_retries_refl [simp]: "same_retries s s"
  by (simp add: same_retries_def)

lemma same_retries_due [simp]:
  "same_retries (s\<lparr>roundTimers := n\<rparr>) t = same_retries s t"
  "same_retries (s\<lparr>restartTimers := n\<rparr>) t = same_retries s t"
  "same_retries (s\<lparr>queriesDue := n\<rparr>) t = same_retries s t"
  by (simp_all add: same_retries_def tallies_def)

lemma same_retries_trans: "same_retries s t \<Longrightarrow> same_retries t u \<Longrightarrow> same_retries s u"
  by (simp add: same_retries_def)

lemma same_master_retries: "same_master s t \<Longrightarrow> openNotices t = openNotices s \<Longrightarrow> same_retries s t"
  by (simp add: same_retries_def tallies_def same_masterD)

lemma same_retries_emit [simp]:
  "same_retries s (emit x s)" "same_retries s (increment m v s)" "same_retries s (timing m v s)"
  "same_retries s (notify srv st s)" "same_retries s (notify_again i s)"
  by (simp_all add: same_master_retries)

lemma same_retries_deleteWorker [simp]: "same_retries s (deleteWorker p s)"
  by (simp add: deleteWorker_def same_retries_def tallies_def Let_def)

lemma same_retries_spawnWorker [simp]: "same_retries s (spawnWorker p s)"
proof -
  define s1 where "s1 = increment ''worker.spawn.new.count'' 1 (emit (Fork p) s)"
  have "same_retries s s1" by (simp add: s1_def same_retries_def tallies_def)
  moreover have "same_retries (deleteWorker p s1) (spawnWorker p s)"
    by (simp add: spawnWorker_def Let_def s1_def same_retries_def tallies_def)
  ultimately show ?thesis using same_retries_trans same_retries_deleteWorker by blast
qed

lemma same_retries_worker_exit [simp]: "same_retries s (worker_exit p code e q s)"
proof (cases e)
  case False
  obtain m r where m: "exit_kind code = (m, r)" by (metis surj_pair)
  have 1: "same_retries s (deleteWorker p (increment m 1 s))"
    using same_retries_trans [OF same_retries_emit(2) same_retries_deleteWorker] .
  have "worker_exit p code e q s =
      (if r then spawnWorker q (deleteWorker p (increment m 1 s)) else deleteWorker p (increment m 1 s))"
    using False m by (simp add: worker_exit_def)
  then show ?thesis using 1 same_retries_trans [OF 1 same_retries_spawnWorker] by simp
qed (simp add: worker_exit_def)

lemma same_retries_preorder: "preorder_rel same_retries"
  by (blast intro: preorder_relI same_retries_trans same_retries_refl)

lemmas same_retries_fold = fold_closed [OF same_retries_preorder]

lemma same_retries_ensure [simp]: "same_retries s (ensure_worker_count fresh b s)"
proof -
  have "same_retries u (fold spawnWorker qs u)" for u qs by (rule same_retries_fold) simp
  moreover have "same_retries s (if \<not> b then increment m v s else s)" for m v by simp
  ultimately have "same_retries s (fold spawnWorker qs (if \<not> b then increment m v s else s))" for qs m v
    using same_retries_trans by blast
  then show ?thesis by (simp only: ensure_worker_count_def Let_def same_retries_refl split: if_split) simp
qed

lemma same_retries_getMoreSites [simp]: "same_retries s (getMoreSites now s)"
  by (auto simp: getMoreSites_def same_retries_def tallies_def Let_def split_beta emit_calls_def)

lemma same_retries_maybeEndRound [simp]: "same_retries s (maybeEndRound now s)"
  by (auto simp: maybeEndRound_def same_retries_def tallies_def Let_def)

lemma same_retries_assign [simp]: "same_retries s (assign_work_to_worker p sz s)"
  by (auto simp: assign_work_to_worker_def get_work_dataset_def same_retries_def tallies_def Let_def
      split: option.split)

lemma same_retries_send_work [simp]: "same_retries s (send_work now p s)"
proof -
  define s1 where "s1 = (if p \<notin> set (haltedWorkers s) \<and> p \<notin> set (freeWorkers s)
                  then s\<lparr>freeWorkers := freeWorkers s @ [p]\<rparr> else s)"
  define s2 where "s2 = (if \<not> gettingSites s1 then getMoreSites now (s1\<lparr>gettingSites := True\<rparr>) else s1)"
  have 1: "same_retries s s1" "same_retries s1 (s1\<lparr>gettingSites := True\<rparr>)"
    by (simp_all add: s1_def same_retries_def tallies_def)
  then have "same_retries s s2"
    using same_retries_trans [OF 1(1) same_retries_trans [OF 1(2) same_retries_getMoreSites]]
    by (simp add: s2_def)
  then have "same_retries s (maybeEndRound now s2)"
    using same_retries_trans same_retries_maybeEndRound by blast
  then show ?thesis
    by (simp add: send_work_def Let_def s1_def [symmetric] s2_def [symmetric] split: option.split)
qed

lemma same_retries_ask_each [simp]: "same_retries s (ask_each now ps s)"
proof (induction ps arbitrary: s)
  case (Cons p ps)
  have "same_retries s (if getWorker p s \<noteq> None then send_work now p s else s)" by simp
  from same_retries_trans [OF this Cons.IH] show ?case by simp
qed simp

lemma same_retries_freeWorkersToWork [simp]: "same_retries s (freeWorkersToWork now s)"
proof -
  have "same_retries s (s\<lparr>freeWorkers := []\<rparr>)" by (simp add: same_retries_def tallies_def)
  from same_retries_trans [OF this same_retries_ask_each] show ?thesis
    by (simp add: freeWorkersToWork_def)
qed

lemma same_retries_stop_work [simp]: "same_retries s (stop_work now p s)"
  unfolding stop_work_def
  by (rule same_retries_trans [OF _ same_retries_maybeEndRound]) (simp add: same_retries_def tallies_def)

lemma same_retries_batch [simp]: "same_retries s (batch_result now started res s)"
proof -
  obtain d got where g: "batch_answer (conf s) res (database s) = (d, got)" by (metis surj_pair)
  have 1: "same_retries s (s\<lparr>database := d\<rparr>)" by (simp add: same_retries_def tallies_def)
  have "same_retries u (batch_rows now started rows u)" for u rows
  proof -
    define v where "v = (timing ''db.get_next_batch'' (now - started) u)
        \<lparr>arrObjects := arrObjects u @ map site_of_row (the rows), gettingSites := False\<rparr>"
    have "same_retries u v" by (simp add: v_def same_retries_def tallies_def)
    from same_retries_trans [OF this same_retries_freeWorkersToWork [of v now]]
    show ?thesis by (auto simp: batch_rows_def v_def Let_def split: option.split)
  qed
  from 1 same_retries_trans [OF 1 this] g show ?thesis
    by (simp add: batch_result_def split: option.split)
qed

lemma same_retries_next_round [simp]: "same_retries s (next_round_timer now s)"
proof -
  have "same_retries s (resetVariables now s)" by (simp add: resetVariables_def same_retries_def tallies_def)
  then show ?thesis unfolding next_round_timer_def by (rule same_retries_trans) simp
qed

lemma same_retries_worker_stats [simp]: "same_retries s (worker_stats p rep cs s)"
proof -
  define u where "u = s\<lparr>checkStats := merge_stats (checkStats s) cs, workerStats := nobj_put p rep (workerStats s)\<rparr>"
  define v where "v = (if uptime rep > 5000 then increment ''worker.queue.queue_size'' (int (queueLength rep))
      (increment ''worker.queue.active'' (report_activeChecks rep) u) else u)"
  have "same_retries s v" by (simp add: u_def v_def same_retries_def tallies_def)
  with same_retries_trans [OF this same_retries_assign] show ?thesis
    by (simp add: worker_stats_def Let_def u_def [symmetric] v_def [symmetric])
qed

end
