(* ===== verification/Master_Invariant.thy ===== *)
theory Master_Invariant
  imports Master_Run
begin

text \<open>
  The invariant of the master process and the proof that every event keeps it.  The number \<open>N\<close> is a
  lower bound on NUM_OF_CHECKS in every configuration the process ever reads.
\<close>

section \<open>Entries of the veriflier queue\<close>

text \<open>The failures the verifliers have reported, and those found here, in a site's list of checks.\<close>

definition offline_answers :: "check list \<Rightarrow> nat" where
  "offline_answers cs = length (filter (\<lambda>c. check_type c = VERIFLIER_CHECK \<and> found_offline (check_status c) = Inr True) cs)"

definition local_failures :: "check list \<Rightarrow> nat" where
  "local_failures cs = length (filter (\<lambda>c. check_type c = JETMON_CHECK \<and> check_status c = Whole SITE_DOWN) cs)"

definition entry_inv :: "int \<Rightarrow> int \<Rightarrow> retry \<Rightarrow> bool" where
  "entry_inv N limit r \<longleftrightarrow> offline_confirms r = int (offline_answers (checks r)) \<and>
     N \<le> int (local_failures (checks r)) \<and>
     retry_site_status r = (if 0 < offline_confirms r \<and> limit \<le> offline_confirms r then Some SITE_DOWN else None)"

lemma local_only:
  assumes "by_workers sv"
  shows "offline_answers (checks sv) = 0" and "local_failures (checks sv) = length (checks sv)"
proof -
  have 1: "\<forall>c \<in> set (checks sv). check_type c = JETMON_CHECK \<and> check_status c = Whole SITE_DOWN" using assms by (simp add: by_workers_def)
  then have "filter (\<lambda>c. check_type c = VERIFLIER_CHECK \<and> found_offline (check_status c) = Inr True) (checks sv) = []"
    by (simp add: filter_empty_conv)
  then show "offline_answers (checks sv) = 0" by (simp add: offline_answers_def)
  from 1 show "local_failures (checks sv) = length (checks sv)" by (simp add: local_failures_def)
qed

lemma answered_inv:
  assumes "entry_inv N limit r"
  shows "entry_inv N limit (answered limit h data now r)"
  using assms
  by (auto simp: entry_inv_def answered_def take_answer_def is_offline_def offline_answers_def local_failures_def Let_def)

lemma answered_fields:
  "blog_id (answered limit h data now r) = blog_id r"
  "monitor_url (answered limit h data now r) = monitor_url r"
  "offline_confirms (answered limit h data now r) =
     offline_confirms r + (if is_offline data then 1 else 0)"
  "retry_no (answered limit h data now r) = retry_no r"
  by (simp_all add: answered_def take_answer_def Let_def)

section \<open>The invariant\<close>

definition site_id :: "'a server_scheme \<Rightarrow> nat \<times> string" where
  "site_id sv = (blog_id sv, monitor_url sv)"

lemma site_id_eq: "same_site a b \<longleftrightarrow> site_id a = site_id b"
  by (simp add: same_site_def site_id_def)

definition queues_inv :: "int \<Rightarrow> master \<Rightarrow> bool" where
  "queues_inv N s \<longleftrightarrow> (\<forall>r \<in> set (queuedRetries s). entry_inv N (peerLimit s) r) \<and>
     distinct (map site_id (localRetries s)) \<and> N \<le> NUM_OF_CHECKS (conf s) \<and>
     sitesCount s = gCountSuccess s + gCountError s + gCountOffline s"

definition master_inv :: "int \<Rightarrow> master \<Rightarrow> bool" where
  "master_inv N s \<longleftrightarrow> pool_inv s \<and> known_free s \<and> sites_inv s \<and> queues_inv N s"

definition master_init :: "int \<Rightarrow> master \<Rightarrow> bool" where
  "master_init N s \<longleftrightarrow> (\<exists>c now fresh. (\<forall>i. fresh i \<noteq> 0) \<and> N \<le> NUM_OF_CHECKS c \<and>
     s = ensure_worker_count fresh True (boot_master c now))"

text \<open>
  What the environment guarantees: the operating system gives a process an id; a worker that asks
  for work is registered, and sends back a site with failed checks of its own only; the tick returns;
  a timer fires that has been set, a query is answered that has been sent, and the callback of a
  notice is called that has been made (as often as its request fails: by errors, by timeouts and by
  the pieces of its reply); and no configuration asks for fewer than \<open>N\<close> checks.
\<close>

fun msg_ok :: "worker_msg \<Rightarrow> master \<Rightarrow> bool" where
  "msg_ok (Send_work p) s \<longleftrightarrow> p \<in> pids s"
| "msg_ok (Recheck sv) s \<longleftrightarrow> by_workers sv"
| "msg_ok m s \<longleftrightarrow> True"

fun master_ok :: "int \<Rightarrow> master_event \<Rightarrow> master \<Rightarrow> bool" where
  "master_ok N (Worker_msg now m) s \<longleftrightarrow> msg_ok m s"
| "master_ok N (Worker_exit p code e q) s \<longleftrightarrow> q \<noteq> 0"
| "master_ok N (Count_timer fresh) s \<longleftrightarrow> (\<forall>i. fresh i \<noteq> 0)"
| "master_ok N (Tick now) s \<longleftrightarrow> processQueuedRetries now s \<noteq> None"
| "master_ok N (Round_timer now) s \<longleftrightarrow> 0 < roundTimers s"
| "master_ok N (Restart_timer now) s \<longleftrightarrow> 0 < restartTimers s"
| "master_ok N (Batch now started res) s \<longleftrightarrow> 0 < queriesDue s"
| "master_ok N (Wpcom_failed i) s \<longleftrightarrow> i < length (openNotices s)"
| "master_ok N (Reload (Some c)) s \<longleftrightarrow> N \<le> NUM_OF_CHECKS c"
| "master_ok N e s \<longleftrightarrow> True"

section \<open>The pool\<close>

definition pool_ok :: "master \<Rightarrow> bool" where
  "pool_ok s \<longleftrightarrow> pool_inv s \<and> known_free s"

lemma pool_ok_same: "same_pool s t \<Longrightarrow> pool_ok s \<Longrightarrow> pool_ok t"
  using same_pool_inv same_pool_known by (simp add: pool_ok_def)

lemma pool_ok_due [simp]:
  "pool_ok (s\<lparr>roundTimers := n\<rparr>) = pool_ok s" "pool_ok (s\<lparr>restartTimers := n\<rparr>) = pool_ok s"
  "pool_ok (s\<lparr>queriesDue := n\<rparr>) = pool_ok s"
  by (simp_all add: pool_ok_def pool_inv_def known_free_def pids_def)

lemma idle_same_pool: "idle_effect s t \<Longrightarrow> freeWorkers t = freeWorkers s \<Longrightarrow> same_pool s t"
  by (simp add: idle_effect_def same_pool_def)

lemma same_pool_preorder: "preorder_rel same_pool"
  by (blast intro: preorder_relI same_pool_trans same_pool_refl)

lemma same_pool_fold_emit: "same_pool s (fold (\<lambda>w. emit (f w)) ws s)"
  by (rule fold_closed [OF same_pool_preorder]) (simp add: same_pool_def)

lemma same_pool_checkHostStatus: "same_pool s (fst (checkHostStatus h d now s))"
  by (auto simp: checkHostStatus_def Let_def same_pool_def split: prod.split sum.split option.split)

lemma same_pool_ssl: "same_pool s (sslWorkerCallBack now m s)"
proof (cases m)
  case (Host_status_array h ds)
  with check_each_closed [OF same_pool_preorder same_pool_checkHostStatus] show ?thesis by simp
qed (auto intro: same_pool_checkHostStatus)

lemma same_pool_updateStats: "same_pool s (updateStats now rss s)"
  by (simp add: updateStats_def restart_if_late_def resetVariables_def emit_stats_def same_pool_def Let_def)

lemma same_pool_next_round: "same_pool s (next_round_timer now s)"
  unfolding next_round_timer_def
  by (rule same_pool_trans [OF _ getMoreSites_same]) (simp add: resetVariables_def same_pool_def)

lemma same_pool_reload: "same_pool s (reload_signal fl s)"
proof (cases fl)
  case (Some c)
  have "same_pool s (increment ''config_reload.count'' 1 (s\<lparr>conf := c\<rparr>))" by (simp add: same_pool_def)
  from same_pool_trans [OF this same_pool_fold_emit] Some show ?thesis
    by (simp add: reload_signal_def Let_def)
qed (simp add: reload_signal_def)

lemma pool_ok_worker_stats: "pool_ok s \<Longrightarrow> pool_ok (worker_stats p rep cs s)"
proof -
  assume s: "pool_ok s"
  define u where "u = s\<lparr>checkStats := merge_stats (checkStats s) cs, workerStats := nobj_put p rep (workerStats s)\<rparr>"
  define v where "v = (if uptime rep > 5000 then increment ''worker.queue.queue_size'' (int (queueLength rep))
      (increment ''worker.queue.active'' (report_activeChecks rep) u) else u)"
  have "same_pool s v" by (simp add: u_def v_def same_pool_def)
  then have v: "pool_ok v" using s by (rule pool_ok_same)
  then have "pool_ok (assign_work_to_worker p sz v)" for sz
    using assign_inv assign_known by (auto simp: pool_ok_def)
  with v show ?thesis by (simp add: worker_stats_def Let_def u_def [symmetric] v_def [symmetric])
qed

lemma pool_ok_msg:
  assumes "pool_ok s" and "msg_ok m s"
  shows "pool_ok (workerMsgCallback now m s)"
proof (cases m)
  case (Totals t)
  then show ?thesis using pool_ok_same [OF _ assms(1)] by (simp add: count_totals_def same_pool_def)
next
  case (Notify_still_down sv)
  then show ?thesis using pool_ok_same [OF _ assms(1)] by (simp add: same_pool_def)
next
  case (Notify_status_change sv)
  then show ?thesis using pool_ok_same [OF _ assms(1)] by (simp add: same_pool_def)
next
  case (Stop_work p)
  then show ?thesis using assms stop_work_inv stop_work_known by (simp add: pool_ok_def)
next
  case (Send_work p)
  then show ?thesis using assms send_work_inv send_work_known by (simp add: pool_ok_def)
next
  case (Recheck sv)
  have "same_pool s (recheck now sv s)"
    by (simp add: recheck_def add_server_to_local_retries_def host_check_request_def same_pool_def)
  then show ?thesis using pool_ok_same [OF _ assms(1)] Recheck by simp
next
  case (Stats p rep cs)
  then show ?thesis using assms(1) pool_ok_worker_stats by simp
next
  case (Unknown_request p)
  then show ?thesis using assms(1) by simp
qed

lemma pool_ok_step:
  assumes "pool_ok s" and "sites_inv s" and "master_ok N e s"
  shows "pool_ok (master_step e s)"
proof (cases e)
  case (Worker_msg now m)
  with assms pool_ok_msg show ?thesis by simp
next
  case (Worker_exit p code b q)
  with assms worker_exit_inv worker_exit_known show ?thesis by (simp add: pool_ok_def)
next
  case (Count_timer fresh)
  with assms ensure_worker_count_inv ensure_worker_count_known show ?thesis by (simp add: pool_ok_def)
next
  case (Ssl_msg now m)
  with assms(1) pool_ok_same [OF same_pool_ssl] show ?thesis by simp
next
  case (Tick now)
  obtain t where t: "processQueuedRetries now s = Some t" using assms(3) Tick by auto
  have "tick_inv s" using assms by (simp add: tick_inv_def pool_ok_def)
  from tick_step [OF this t] assms(1) t Tick show ?thesis by (simp add: pool_ok_def tick_inv_def)
next
  case (Stats_tick now rss)
  with assms(1) pool_ok_same [OF same_pool_updateStats] show ?thesis by simp
next
  case (Round_timer now)
  with assms(1) pool_ok_same [OF same_pool_next_round] show ?thesis by simp
next
  case (Restart_timer now)
  with assms(1) pool_ok_same [OF getMoreSites_same] show ?thesis by simp
next
  case (Batch now started res)
  with pool_ok_due(3) [of "queriesDue s - 1" s] assms(1) batch_result_inv batch_result_known show ?thesis
    by (simp add: pool_ok_def)
next
  case (Wpcom_failed i)
  then show ?thesis using pool_ok_same [OF _ assms(1)] by (simp add: same_pool_def)
next
  case (Reload fl)
  with assms(1) pool_ok_same [OF same_pool_reload] show ?thesis by simp
next
  case (Db_updated b)
  then show ?thesis using pool_ok_same [OF _ assms(1)] by (simp add: same_pool_def)
next
  case (File_opened j)
  then show ?thesis using pool_ok_same [OF _ assms(1)] by (simp add: same_pool_def)
qed

section \<open>The stock\<close>

lemma serves_worker_stats:
  assumes "sites_inv s"
  shows "serves s (worker_stats p rep cs s)"
proof -
  define u where "u = s\<lparr>checkStats := merge_stats (checkStats s) cs, workerStats := nobj_put p rep (workerStats s)\<rparr>"
  define v where "v = (if uptime rep > 5000 then increment ''worker.queue.queue_size'' (int (queueLength rep))
      (increment ''worker.queue.active'' (report_activeChecks rep) u) else u)"
  have "idle_effect s v" by (simp add: u_def v_def idle_effect_def)
  then have v: "serves s v" using assms by (rule serves_idle)
  from serves_trans [OF this serves_assign [OF serves_sites [OF v]]] v
  show ?thesis by (simp add: worker_stats_def Let_def u_def [symmetric] v_def [symmetric])
qed

lemma accounted_msg:
  assumes "sites_inv s" and "msg_ok m s"
  shows "accounted (arrivals (Worker_msg now m) s) s (workerMsgCallback now m s)"
proof (cases m)
  case (Totals t)
  then show ?thesis using accounted_quiet [OF _ assms(1)] by (simp add: count_totals_def quiet_update)
next
  case (Notify_still_down sv)
  then show ?thesis using accounted_quiet [OF idle_quiet [OF idle_announce] assms(1)] by simp
next
  case (Notify_status_change sv)
  then show ?thesis using accounted_quiet [OF idle_quiet [OF idle_announce] assms(1)] by simp
next
  case (Stop_work p)
  then show ?thesis using accounted_quiet [OF quiet_stop_work assms(1)] by simp
next
  case (Send_work p)
  then show ?thesis using accounted_serves [OF serves_send_work [OF assms(1)]] by simp
next
  case (Recheck sv)
  then show ?thesis using accounted_recheck [OF assms(1)] assms(2) by simp
next
  case (Stats p rep cs)
  then show ?thesis using accounted_serves [OF serves_worker_stats [OF assms(1)]] by simp
next
  case (Unknown_request p)
  then show ?thesis using accounted_quiet [OF quiet_refl assms(1)] by simp
qed

lemma accounted_step:
  assumes "pool_inv s" and "sites_inv s" and "master_ok N e s"
  shows "accounted (arrivals e s) s (master_step e s)"
proof (cases e)
  case (Worker_msg now m)
  with accounted_msg [OF assms(2)] assms(3) show ?thesis by simp
next
  case (Worker_exit p code b q)
  with accounted_quiet [OF quiet_worker_exit assms(2)] show ?thesis by simp
next
  case (Count_timer fresh)
  with accounted_quiet [OF quiet_ensure assms(2)] show ?thesis by simp
next
  case (Ssl_msg now m)
  with accounted_quiet [OF quiet_ssl assms(2)] show ?thesis by simp
next
  case (Tick now)
  show ?thesis
  proof (cases "processQueuedRetries now s")
    case None
    with Tick accounted_quiet [OF quiet_refl assms(2)] show ?thesis by simp
  next
    case (Some t)
    have "tick_inv s" using assms by (simp add: tick_inv_def)
    from tick_step [OF this Some] accounted_serves Some Tick show ?thesis by simp
  qed
next
  case (Stats_tick now rss)
  with accounted_quiet [OF idle_quiet [OF idle_updateStats] assms(2)] show ?thesis by simp
next
  case (Round_timer now)
  have "sites_inv (s\<lparr>roundTimers := n\<rparr>)" for n using assms(2) by (simp add: sites_inv_def)
  from accounted_quiet [OF idle_quiet [OF idle_next_round] this] Round_timer show ?thesis by simp
next
  case (Restart_timer now)
  have "sites_inv (s\<lparr>restartTimers := n\<rparr>)" for n using assms(2) by (simp add: sites_inv_def)
  from accounted_quiet [OF idle_quiet [OF idle_getMoreSites] this] Restart_timer show ?thesis by simp
next
  case (Batch now started res)
  have "sites_inv (s\<lparr>queriesDue := n\<rparr>)" for n using assms(2) by (simp add: sites_inv_def)
  from accounted_batch [OF this] have "accounted (arrivals e (s\<lparr>queriesDue := queriesDue s - 1\<rparr>)) s (master_step e s)"
    using Batch by simp
  moreover have "arrivals e (s\<lparr>queriesDue := n\<rparr>) = arrivals e s" for n
    unfolding Batch by (cases "(Batch now started res, s)" rule: arrivals.cases) simp_all
  ultimately show ?thesis by simp
next
  case (Wpcom_failed i)
  with accounted_quiet [OF idle_quiet [OF idle_notify_again] assms(2)] show ?thesis by simp
next
  case (Reload fl)
  with accounted_quiet [OF quiet_reload assms(2)] show ?thesis by simp
next
  case (Db_updated b)
  with accounted_quiet [OF quiet_update assms(2)] show ?thesis by simp
next
  case (File_opened j)
  with accounted_quiet [OF quiet_file_opened assms(2)] show ?thesis by simp
qed

section \<open>The queues of failures\<close>

lemma queues_same: "same_retries s t \<Longrightarrow> queues_inv N s \<Longrightarrow> queues_inv N t"
  by (simp add: queues_inv_def same_retries_def tallies_def)

lemmas queues_frames =
  queues_same [OF same_retries_emit(4)] queues_same [OF same_retries_emit(5)] queues_same [OF same_retries_worker_exit]
  queues_same [OF same_retries_ensure] queues_same [OF same_retries_getMoreSites]
  queues_same [OF same_retries_next_round] queues_same [OF same_retries_stop_work]
  queues_same [OF same_retries_send_work] queues_same [OF same_retries_worker_stats]
  queues_same [OF same_retries_batch]

lemma queues_announce [simp]: "queues_inv N (announce k srv st s) = queues_inv N s"
  by (simp add: queues_inv_def)

lemma queues_due [simp]:
  "queues_inv N (s\<lparr>roundTimers := n\<rparr>) = queues_inv N s" "queues_inv N (s\<lparr>restartTimers := n\<rparr>) = queues_inv N s"
  "queues_inv N (s\<lparr>queriesDue := n\<rparr>) = queues_inv N s"
  by (simp_all add: queues_inv_def)

lemma queues_take_in:
  assumes "queues_inv N s" and "i < length (queuedRetries s)"
  shows "queues_inv N (take_in i (answered (peerLimit s) h d now (queuedRetries s ! i)) s)"
proof -
  have "entry_inv N (peerLimit s) (queuedRetries s ! i)" using assms by (simp add: queues_inv_def)
  then have "entry_inv N (peerLimit s) (answered (peerLimit s) h d now (queuedRetries s ! i))"
    by (rule answered_inv)
  with assms(1) show ?thesis
    by (auto simp: take_in_def queues_inv_def Let_def dest!: set_update_subset_insert [THEN subsetD])
qed

lemma queues_checkHostStatus:
  assumes "queues_inv N s"
  shows "queues_inv N (fst (checkHostStatus h d now s))"
proof (cases "entry_at d (queuedRetries s)")
  case None
  then show ?thesis using assms by (simp add: check_unknown queues_inv_def)
next
  case (Some i)
  then show ?thesis
    using queues_take_in [OF assms] entry_at_Some [OF Some] by (simp add: check_known(1) Let_def)
qed

lemma queues_ssl: "queues_inv N s \<Longrightarrow> queues_inv N (sslWorkerCallBack now m s)"
  by (cases m) (auto intro: queues_checkHostStatus check_each_inv)

lemma queues_recheck:
  assumes "queues_inv N s" and "by_workers sv"
  shows "queues_inv N (recheck now sv s)"
proof (cases "int (length (checks sv)) < NUM_OF_CHECKS (conf s)")
  case True
  have "site_id (sv\<lparr>processed := False\<rparr>) = site_id sv" by (simp add: site_id_def)
  with True assms(1) show ?thesis
    by (auto simp: recheck_def add_server_to_local_retries_def queues_inv_def site_id_eq)
next
  case False
  with assms local_only [OF assms(2)] show ?thesis
    by (auto simp: recheck_def host_check_request_def queues_inv_def entry_inv_def)
qed

lemma kept_inv:
  assumes "\<forall>r \<in> set q. entry_inv N l r"
  shows "\<forall>r \<in> set (kept c now q). entry_inv N l r"
  using assms by (auto simp: kept_def asked_def entry_inv_def)

lemma tick_queues:
  assumes "processQueuedRetries now s = Some t"
  shows "conf t = conf s" and "peerLimit t = peerLimit s" and "tallies t = tallies s"
    and "queuedRetries t = kept (conf s) now (queuedRetries s)"
    and "localRetries t = filter (too_early (conf s) now) (localRetries s)"
    and "retryCount t = retryCount s" and "openNotices t = openNotices s"
proof -
  obtain u where u: "remote_tick now s = Some u" "t = local_tick now u"
    using assms by (auto simp: processQueuedRetries_def)
  obtain bs where bs: "u = fold ask_verifliers bs (s\<lparr>queuedRetries := kept (conf s) now (queuedRetries s)\<rparr>)"
    using remote_tick_spec [OF u(1)] by blast
  have "same_retries v (ask_verifliers b v)" for b v
    unfolding ask_verifliers_def by (rule same_retries_fold) simp
  then have "same_retries v (fold ask_verifliers bs v)" for v by (rule same_retries_fold)
  then have tu: "tallies u = tallies s" "retryCount u = retryCount s" "openNotices u = openNotices s"
    by (simp_all add: bs same_retries_def tallies_def)
  obtain b v where v: "local_loop now (length (localRetries u)) False u = (b, v)" by (metis surj_pair)
  note l = local_loop_retries [OF order_refl v]
  have "same_retries v t"
    using u(2) v by (simp add: local_tick_def)
  then show "conf t = conf s" and "peerLimit t = peerLimit s" and "tallies t = tallies s"
    and "queuedRetries t = kept (conf s) now (queuedRetries s)"
    and "localRetries t = filter (too_early (conf s) now) (localRetries s)"
    and "retryCount t = retryCount s" and "openNotices t = openNotices s"
    using l tu by (simp_all add: same_retries_def bs)
qed

lemma queues_tick:
  assumes "queues_inv N s" and "processQueuedRetries now s = Some t"
  shows "queues_inv N t"
  using assms(1) kept_inv [of "queuedRetries s" N "peerLimit s"]
  by (simp add: distinct_map_filter queues_inv_def tick_queues [OF assms(2)] tick_queues(3) [OF assms(2), unfolded tallies_def, simplified])

lemma queues_updateStats:
  assumes "queues_inv N s"
  shows "queues_inv N (updateStats now rss s)"
  using assms
  by (simp add: updateStats_def restart_if_late_def resetVariables_def emit_stats_def queues_inv_def Let_def)

lemma queues_reload:
  assumes "queues_inv N s" and "master_ok N (Reload fl) s"
  shows "queues_inv N (reload_signal fl s)"
proof (cases fl)
  case (Some c)
  have "queues_inv N (increment ''config_reload.count'' 1 (s\<lparr>conf := c\<rparr>))"
    using assms Some by (simp add: queues_inv_def)
  moreover have "same_retries u (fold (\<lambda>w. emit (To_worker (proc_pid w) Config_update)) ws u)" for ws u
    by (rule same_retries_fold) simp
  ultimately have "queues_inv N (fold (\<lambda>w. emit (To_worker (proc_pid w) Config_update)) ws
      (increment ''config_reload.count'' 1 (s\<lparr>conf := c\<rparr>)))" for ws
    using queues_same by blast
  then show ?thesis using Some by (simp add: reload_signal_def Let_def)
qed (use assms in \<open>simp add: reload_signal_def\<close>)

lemma queues_msg:
  assumes "queues_inv N s" and "msg_ok m s"
  shows "queues_inv N (workerMsgCallback now m s)"
proof (cases m)
  case (Totals t)
  then show ?thesis using assms(1) by (simp add: count_totals_def queues_inv_def totals_sum_def)
next
  case (Recheck sv)
  then show ?thesis using assms queues_recheck by simp
next
  case (Notify_still_down sv)
  then show ?thesis using assms(1) by simp
qed (use assms(1) in \<open>auto intro: queues_frames\<close>)

lemma queues_step:
  assumes "queues_inv N s" and "master_ok N e s"
  shows "queues_inv N (master_step e s)"
proof (cases e)
  case (Worker_msg now m)
  with assms queues_msg show ?thesis by simp
next
  case (Ssl_msg now m)
  with assms queues_ssl show ?thesis by simp
next
  case (Tick now)
  with assms queues_tick show ?thesis by auto
next
  case (Stats_tick now rss)
  with assms queues_updateStats show ?thesis by simp
next
  case (Reload fl)
  with assms queues_reload show ?thesis by simp
next
  case (Db_updated b)
  with assms show ?thesis by (simp add: queues_inv_def)
next
  case (File_opened j)
  with assms show ?thesis by (simp add: queues_inv_def)
qed (use assms(1) in \<open>auto intro: queues_frames\<close>)

section \<open>The configuration\<close>

definition same_conf :: "master \<Rightarrow> master \<Rightarrow> bool" where
  "same_conf s t \<longleftrightarrow> conf t = conf s \<and> peerLimit t = peerLimit s"

lemma same_conf_preorder: "preorder_rel same_conf"
  by (rule preorder_relI) (simp_all add: same_conf_def)

lemma retries_conf: "same_retries s t \<Longrightarrow> same_conf s t"
  by (simp add: same_retries_def same_conf_def)

lemma same_conf_due [simp]:
  "same_conf (s\<lparr>roundTimers := n\<rparr>) t = same_conf s t" "same_conf (s\<lparr>restartTimers := n\<rparr>) t = same_conf s t"
  "same_conf (s\<lparr>queriesDue := n\<rparr>) t = same_conf s t"
  by (simp_all add: same_conf_def)

lemma same_conf_announce [simp]: "same_conf s (announce k srv st s)"
  by (simp add: same_conf_def)

lemma same_conf_checkHostStatus: "same_conf s (fst (checkHostStatus h d now s))"
  by (simp add: checkHostStatus_def same_conf_def Let_def split: prod.split sum.split option.split)

lemma same_conf_ssl: "same_conf s (sslWorkerCallBack now m s)"
  by (cases m) (auto intro: same_conf_checkHostStatus check_each_closed [OF same_conf_preorder]
      simp: same_conf_def [of s s])

lemma same_conf_updateStats: "same_conf s (updateStats now rss s)"
  by (simp add: updateStats_def restart_if_late_def resetVariables_def emit_stats_def same_conf_def Let_def)

lemma same_conf_msg: "same_conf s (workerMsgCallback now m s)"
proof (cases m)
  case (Recheck sv)
  then show ?thesis
    by (simp add: recheck_def add_server_to_local_retries_def host_check_request_def same_conf_def)
next
  case (Totals t)
  then show ?thesis by (simp add: count_totals_def same_conf_def)
qed (auto intro: retries_conf same_retries_emit same_retries_stop_work same_retries_send_work
      same_retries_worker_stats)

lemma step_conf_reload:
  "conf (master_step (Reload (Some c)) s) = c \<and> peerLimit (master_step (Reload (Some c)) s) = peerLimit s"
proof -
  have "same_conf u (fold (\<lambda>w. emit (To_worker (proc_pid w) Config_update)) ws u)" for ws :: "proc list" and u
    by (rule fold_closed [OF same_conf_preorder]) (simp add: same_conf_def)
  then show ?thesis by (simp add: reload_signal_def Let_def same_conf_def)
qed

lemma same_conf_step:
  assumes "\<And>c. e \<noteq> Reload (Some c)"
  shows "same_conf s (master_step e s)"
proof (cases e)
  case (Worker_msg now m)
  with same_conf_msg show ?thesis by simp
next
  case (Ssl_msg now m)
  with same_conf_ssl show ?thesis by simp
next
  case (Tick now)
  then show ?thesis using tick_queues(1,2) by (auto simp: same_conf_def split: option.split)
next
  case (Stats_tick now rss)
  with same_conf_updateStats show ?thesis by simp
next
  case (Reload fl)
  with assms have "fl = None" by (cases fl) auto
  with Reload show ?thesis by (simp add: reload_signal_def same_conf_def)
next
  case (Db_updated b)
  then show ?thesis by (simp add: same_conf_def)
next
  case (File_opened j)
  then show ?thesis by (simp add: same_conf_def)
next
  case (Round_timer now)
  with retries_conf [OF same_retries_next_round [of "s\<lparr>roundTimers := roundTimers s - 1\<rparr>"]]
  show ?thesis by simp
next
  case (Restart_timer now)
  with retries_conf [OF same_retries_getMoreSites [of "s\<lparr>restartTimers := restartTimers s - 1\<rparr>"]]
  show ?thesis by simp
next
  case (Batch now started res)
  with retries_conf [OF same_retries_batch [of "s\<lparr>queriesDue := queriesDue s - 1\<rparr>"]]
  show ?thesis by simp
qed (auto intro: retries_conf same_retries_emit same_retries_worker_exit same_retries_ensure)

lemma conf_step: "conf (master_step e s) = (case e of Reload (Some c) \<Rightarrow> c | _ \<Rightarrow> conf s)"
  using step_conf_reload same_conf_step [of e s]
  by (auto simp: same_conf_def simp del: master_step.simps split: master_event.split option.split)

lemma peerLimit_step: "peerLimit (master_step e s) = peerLimit s"
proof (cases "\<exists>c. e = Reload (Some c)")
  case True
  then show ?thesis using step_conf_reload by blast
next
  case False
  then show ?thesis using same_conf_step [of e s] by (auto simp: same_conf_def)
qed

section \<open>Reachable states\<close>

lemma master_inv_init: "master_init N s \<Longrightarrow> master_inv N s"
proof -
  assume "master_init N s"
  then obtain c now fresh where f: "\<And>i. fresh i \<noteq> 0" and c: "N \<le> NUM_OF_CHECKS c"
    and s: "s = ensure_worker_count fresh True (boot_master c now)"
    by (auto simp: master_init_def)
  define b where "b = boot_master c now"
  have b: "pool_inv b" "known_free b" "sites_inv b" "queues_inv N b"
    using c by (simp_all add: b_def boot_master_def pool_inv_def known_free_def pids_def sites_inv_def queues_inv_def)
  have "sites_inv s"
    using accounted_quiet [OF quiet_ensure b(3)] by (simp add: s b_def accounted_def)
  then show "master_inv N s"
    using ensure_worker_count_inv [OF b(1) f] ensure_worker_count_known [OF b(1,2) f]
      queues_same [OF same_retries_ensure b(4)]
    by (simp add: master_inv_def s b_def)
qed

lemma master_inv_step:
  assumes "master_inv N s" and "master_ok N e s"
  shows "master_inv N (master_step e s)"
  using assms pool_ok_step [OF _ _ assms(2)] accounted_step [OF _ _ assms(2)] queues_step
  by (simp add: master_inv_def pool_ok_def accounted_def)

interpretation ms: transition_system "master_init N" master_step "master_ok N" "master_inv N"
  for N :: int
  by unfold_locales (rule master_inv_init master_inv_step; assumption)+

end
