(* ===== verification/Master_Properties.thy ===== *)
theory Master_Properties
  imports Master_Invariant
begin

text \<open>
  The properties of the master process: who gets work and which work, what becomes of the sites,
  when workers are replaced and when a round ends.
\<close>

section \<open>Reachable states\<close>

inductive master_reachable :: "int \<Rightarrow> master \<Rightarrow> bool" for N :: int where
  start: "master_init N s \<Longrightarrow> master_reachable N s"
| event: "master_reachable N s \<Longrightarrow> master_ok N e s \<Longrightarrow> master_reachable N (master_step e s)"

lemma reachable_master_inv: "master_reachable N s \<Longrightarrow> master_inv N s"
  by (induction rule: master_reachable.induct) (auto intro: ms.inv_init ms.inv_step)

lemma reachable_master_run:
  "master_reachable N s \<Longrightarrow> ms.admissible N es s \<Longrightarrow> master_reachable N (fold master_step es s)"
  by (induction es arbitrary: s) (auto intro: event)

lemmas reachable_parts = reachable_master_inv [unfolded master_inv_def]

text \<open>What an event adds to the trace.\<close>

definition effects :: "master_event \<Rightarrow> master \<Rightarrow> out list" where
  "effects e s = drop (length (outs s)) (outs (master_step e s))"

lemma effectsI: "outs (master_step e s) = outs s @ xs \<Longrightarrow> effects e s = xs"
  by (simp add: effects_def)

text \<open>The states used as examples: two workers, three sites, at most two of them per payload.\<close>

definition demo_master_config :: config where
  "demo_master_config = sample_config\<lparr>NUM_WORKERS := 2, DATASET_SIZE := 2\<rparr>"

definition demo_pid :: "nat \<Rightarrow> nat" where
  "demo_pid i = 100 + i"

definition demo_row :: "nat \<Rightarrow> row" where
  "demo_row n = \<lparr>row_blog_id = n, row_monitor_url = ''u'', row_site_status = 1, row_last_status_change = None\<rparr>"

definition master_start :: master where
  "master_start = ensure_worker_count demo_pid True (boot_master demo_master_config 0)"

definition master_asked :: master where
  "master_asked = fold master_step [Worker_msg 1 (Send_work 100)] master_start"

definition rows_event :: master_event where
  "rows_event = Batch 5 1 (None, Some [demo_row 1, demo_row 2, demo_row 3])"

definition master_busy :: master where
  "master_busy = fold master_step [rows_event] master_asked"

lemma demo_pid_nonzero: "demo_pid i \<noteq> 0"
  by (simp add: demo_pid_def)

lemma master_start_reachable: "master_reachable 3 master_start"
proof (rule start)
  show "master_init 3 master_start"
    unfolding master_init_def master_start_def
    by (intro exI [of _ demo_master_config] exI [of _ 0] exI [of _ demo_pid])
      (simp add: demo_pid_def demo_master_config_def sample_config_def)
qed

lemma master_asked_reachable: "master_reachable 3 master_asked"
proof -
  have "ms.admissible 3 [Worker_msg 1 (Send_work 100)] master_start"
    unfolding ms.admissible.simps master_ok.simps msg_ok.simps pids_def by code_simp
  from reachable_master_run [OF master_start_reachable this] show ?thesis by (simp add: master_asked_def)
qed

lemma rows_event_ok: "0 < queriesDue s \<Longrightarrow> master_ok 3 rows_event s"
  by (simp add: rows_event_def)

lemma rows_event_asked: "master_ok 3 rows_event master_asked"
  by (rule rows_event_ok) code_simp

lemma master_busy_reachable: "master_reachable 3 master_busy"
  using event [OF master_asked_reachable rows_event_asked] by (simp add: master_busy_def)

section \<open>Work\<close>

text \<open>
  C8. In every reachable state a registered worker is free or halted or neither, never both; nobody
  else is; and while sites are queued no worker sits free.
\<close>

theorem no_worker_idles:
  assumes "master_reachable N s"
  shows "distinct (map proc_pid (arrWorkers s)) \<and> distinct (freeWorkers s) \<and> distinct (haltedWorkers s) \<and>
    set (freeWorkers s) \<union> set (haltedWorkers s) \<subseteq> pids s \<and>
    set (freeWorkers s) \<inter> set (haltedWorkers s) = {} \<and>
    (arrObjects s \<noteq> [] \<longrightarrow> freeWorkers s = [])"
proof -
  have s: "pool_inv s" "set (freeWorkers s) \<subseteq> pids s"
    using reachable_parts [OF assms] by (simp_all add: known_free_def)
  then have "arrObjects s \<noteq> [] \<Longrightarrow> set (freeWorkers s) = {}"
    using inf_absorb1 [OF s(2)] by (simp add: pool_inv_def)
  with s show ?thesis by (simp add: pool_inv_def)
qed

theorem no_worker_idles_witness:
  "length (arrObjects master_busy) = 1 \<and> freeWorkers master_busy = []"
proof -
  have "length (arrObjects master_busy) = 1" by code_simp
  with no_worker_idles [OF master_busy_reachable] show ?thesis by auto
qed

text \<open>
  C12. Whatever happens, a payload goes to a registered worker that has not asked to be halted, and
  is one that the worker can take on: it is not empty, none of its sites has been processed, and
  none carries an answer of a veriflier.
\<close>

theorem work_for_live_workers:
  assumes "master_reachable N s" and "master_ok N e s" and "To_worker p (Queue_add d) \<in> set (effects e s)"
  shows "p \<in> pids s \<and> p \<notin> set (haltedWorkers s) \<and> fresh_payload d"
proof -
  have "accounted (arrivals e s) s (master_step e s)"
    using reachable_parts [OF assms(1)] accounted_step [OF _ _ assms(2)] by simp
  then obtain xs where "outs (master_step e s) = outs s @ xs" "\<forall>x \<in> set xs. good_out s x"
    by (auto simp: accounted_def)
  then have "good_out s (To_worker p (Queue_add d))" using assms(3) effectsI by auto
  then show ?thesis by simp
qed

theorem work_for_live_workers_witness:
  "fresh_payload [site_of_row (demo_row 1), site_of_row (demo_row 2)] \<and> 100 \<in> pids master_asked"
proof -
  have "To_worker 100 (Queue_add [site_of_row (demo_row 1), site_of_row (demo_row 2)])
      \<in> set (effects rows_event master_asked)"
    by code_simp
  from work_for_live_workers [OF master_asked_reachable rows_event_asked this] show ?thesis by simp
qed

text \<open>
  C9. No site is lost and none is made twice: over any event the sites queued, waiting for a recheck
  or handed to a worker change by exactly those that arrive, which are the rows of an answered
  query and the sites a worker sends back for a recheck.
\<close>

theorem no_site_lost:
  assumes "master_reachable N s" and "master_ok N e s"
  shows "stock (master_step e s) = stock s + arrivals e s"
  using reachable_parts [OF assms(1)] accounted_step [OF _ _ assms(2)] by (simp add: accounted_def)

theorem no_site_lost_witness:
  "size (stock master_busy) = 3 \<and> length (arrObjects master_busy) = 1"
proof -
  have "stock master_asked = {#}" by code_simp
  with no_site_lost [OF master_asked_reachable rows_event_asked]
  have "size (stock master_busy) = 3" by (simp add: master_busy_def rows_event_def)
  moreover have "length (arrObjects master_busy) = 1" by code_simp
  ultimately show ?thesis by blast
qed

text \<open>
  C30. Work is handed out in order and in portions: the worker gets the first sites of the queue,
  as many as asked for where that is between 1 and DATASET_SIZE, and DATASET_SIZE otherwise;
  where the worker is unknown or halted, or there is nothing to give, nothing happens.
\<close>

theorem work_in_order:
  "assign_work_to_worker p sz s =
    (let n = (case sz of None \<Rightarrow> DATASET_SIZE (conf s)
              | Some k \<Rightarrow> if 1 \<le> k \<and> k \<le> DATASET_SIZE (conf s) then k else DATASET_SIZE (conf s));
         d = take (nat n) (arrObjects s)
     in if p \<noteq> 0 \<and> p \<in> pids s \<and> p \<notin> set (haltedWorkers s) \<and> d \<noteq> []
        then emit (To_worker p (Queue_add d)) (s\<lparr>arrObjects := drop (nat n) (arrObjects s)\<rparr>)
        else s)"
proof -
  define n where "n = dataset_size (conf s) sz"
  have n: "n = (case sz of None \<Rightarrow> DATASET_SIZE (conf s)
              | Some k \<Rightarrow> if 1 \<le> k \<and> k \<le> DATASET_SIZE (conf s) then k else DATASET_SIZE (conf s))"
    by (auto simp: n_def dataset_size_def split: option.split)
  have g: "get_work_dataset sz s = (take (nat n) (arrObjects s), s\<lparr>arrObjects := drop (nat n) (arrObjects s)\<rparr>)"
  proof (cases "arrObjects s = []")
    case True
    have "s\<lparr>arrObjects := arrObjects s\<rparr> = s" by simp
    with True show ?thesis by (simp add: get_work_dataset_def Let_def)
  next
    case False
    have "take (nat (min (int (length xs)) n)) xs = take (nat n) xs \<and>
          drop (nat (min (int (length xs)) n)) xs = drop (nat n) xs" for xs :: "site list"
      by (cases "n \<le> int (length xs)") (simp_all add: min_def)
    with False show ?thesis by (simp add: get_work_dataset_def Let_def n_def)
  qed
  have e: "take (nat n) (arrObjects s) = [] \<Longrightarrow> s\<lparr>arrObjects := drop (nat n) (arrObjects s)\<rparr> = s"
  proof -
    assume "take (nat n) (arrObjects s) = []"
    then have "drop (nat n) (arrObjects s) = arrObjects s" by (metis append_take_drop_id self_append_conv2)
    then show "s\<lparr>arrObjects := drop (nat n) (arrObjects s)\<rparr> = s" by simp
  qed
  show ?thesis
  proof (cases "p \<noteq> 0 \<and> p \<in> pids s")
    case True
    then obtain w where w: "getWorker p s = Some w" using getWorker_iff by blast
    then have "proc_pid w = p" by (simp add: getWorker_pid)
    with w True g e show ?thesis
      unfolding n [symmetric] by (simp add: assign_work_to_worker_def Let_def)
  next
    case False
    then have "getWorker p s = None" using getWorker_iff by blast
    with False show ?thesis by (auto simp: assign_work_to_worker_def Let_def)
  qed
qed

section \<open>Workers\<close>

text \<open>
  The exit of a worker takes it out of the pool, and a replacement is started for every exit
  code but 1 (asked to evaporate) and 130 (interrupted), and for a death by signal; the other
  workers stay as they are, and neither the dead worker nor a new process that was given its id
  is taken for free or halted.
\<close>

theorem exit_replaces_worker:
  fixes code :: "int option"
  assumes "pool_inv s" and "q \<noteq> 0" and "p \<noteq> 0"
  defines "t \<equiv> worker_exit p code False q s"
  defines "respawn \<equiv> code \<noteq> Some 1 \<and> code \<noteq> Some 130"
  shows "pids t = (if respawn then insert q (pids s - {p}) else pids s - {p}) \<and>
    set (freeWorkers t) = set (freeWorkers s) - {p} - (if respawn then {q} else {}) \<and>
    set (haltedWorkers t) = set (haltedWorkers s) - {p} - (if respawn then {q} else {}) \<and>
    arrObjects t = arrObjects s"
proof -
  have d: "distinct (map proc_pid (arrWorkers u))" if "pool_inv u" for u
    using that by (simp add: pool_inv_def)
  define u where "u = deleteWorker p (increment (fst (exit_kind code)) 1 s)"
  have u: "pool_inv u" using assms(1) by (simp add: u_def deleteWorker_inv)
  have uf: "pids u = pids s - {p}" "set (freeWorkers u) = set (freeWorkers s) - {p}"
      "set (haltedWorkers u) = set (haltedWorkers s) - {p}" "arrObjects u = arrObjects s"
    using d [OF assms(1)] assms(3)
    by (auto simp: u_def pids_def deleteWorker_fields)
  define v where "v = increment ''worker.spawn.new.count'' 1 (emit (Fork q) u)"
  have v: "distinct (map proc_pid (arrWorkers v))" "pids v = pids u"
    using d [OF u] by (simp_all add: v_def pids_def)
  have sp: "pids (spawnWorker q u) = insert q (pids u)"
      "set (freeWorkers (spawnWorker q u)) = set (freeWorkers u) - {q}"
      "set (haltedWorkers (spawnWorker q u)) = set (haltedWorkers u) - {q}"
      "arrObjects (spawnWorker q u) = arrObjects u"
    unfolding spawnWorker_def Let_def v_def [symmetric]
    using v assms(2) by (auto simp: pids_def deleteWorker_fields) (auto simp: v_def)
  have r: "snd (exit_kind code) = respawn"
    by (auto simp: exit_kind_def respawn_def const_defs)
  have "t = (if respawn then spawnWorker q u else u)"
    by (simp add: t_def worker_exit_def u_def split_beta r Let_def)
  then show ?thesis using uf sp by simp
qed

theorem exit_replaces_worker_witness:
  "pids (worker_exit 100 (Some 3) False 100 master_busy) = {100, 101}"
proof -
  have "pids master_busy = {100, 101}" unfolding pids_def by code_simp
  with exit_replaces_worker [of master_busy 100 100 "Some 3"] reachable_parts [OF master_busy_reachable]
  show ?thesis by auto
qed

lemma spawn_new:
  assumes "pool_inv s" and "q \<noteq> 0" and "q \<notin> pids s"
  shows "map proc_pid (arrWorkers (spawnWorker q s)) = map proc_pid (arrWorkers s) @ [q]"
proof -
  define v where "v = increment ''worker.spawn.new.count'' 1 (emit (Fork q) s)"
  have v: "distinct (map proc_pid (arrWorkers v))" "arrWorkers v = arrWorkers s"
    using assms(1) by (simp_all add: v_def pool_inv_def)
  have "filter (\<lambda>w. proc_pid w \<noteq> q) (arrWorkers s) = arrWorkers s"
    using assms(3) by (auto simp: pids_def filter_id_conv)
  then show ?thesis
    unfolding spawnWorker_def Let_def v_def [symmetric]
    using deleteWorker_fields(1) [OF v(1) assms(2)] v(2) by simp
qed

lemma fold_spawn_new:
  "pool_inv s \<Longrightarrow> 0 \<notin> set qs \<Longrightarrow> distinct qs \<Longrightarrow> set qs \<inter> pids s = {} \<Longrightarrow>
   map proc_pid (arrWorkers (fold spawnWorker qs s)) = map proc_pid (arrWorkers s) @ qs"
proof (induction qs arbitrary: s)
  case (Cons q qs)
  have q: "q \<noteq> 0" "q \<notin> pids s" using Cons.prems by auto
  have n: "map proc_pid (arrWorkers (spawnWorker q s)) = map proc_pid (arrWorkers s) @ [q]"
    by (rule spawn_new [OF Cons.prems(1) q])
  then have "pids (spawnWorker q s) = insert q (pids s)"
    unfolding pids_def by (metis Un_insert_right list.set(2) list.set_map set_append sup_bot_right list.set(1))
  then have "set qs \<inter> pids (spawnWorker q s) = {}" using Cons.prems by auto
  with Cons.IH [OF spawnWorker_inv [OF Cons.prems(1) q(1)]] Cons.prems n show ?case by simp
qed simp

text \<open>
  C28. The one second timer brings the pool to NUM_WORKERS: the missing workers are started, no more
  and no fewer, each registered under the id of its own process, behind the ones that are there.
\<close>

theorem pool_is_filled:
  fixes first_usage :: bool
  assumes "pool_inv s" and "inj fresh" and "\<forall>i. fresh i \<noteq> 0 \<and> fresh i \<notin> pids s"
  defines "t \<equiv> ensure_worker_count fresh first_usage s"
  shows "map proc_pid (arrWorkers t) = map proc_pid (arrWorkers s) @
      map fresh [0 ..< nat (NUM_WORKERS (conf s) - int (length (arrWorkers s)))] \<and>
    int (length (arrWorkers t)) = max (NUM_WORKERS (conf s)) (int (length (arrWorkers s)))"
proof -
  define n where "n = nat (NUM_WORKERS (conf s) - int (length (arrWorkers s)))"
  define qs where "qs = map fresh [0 ..< n]"
  have "distinct qs" using assms(2) by (simp add: qs_def distinct_map inj_on_def inj_def)
  moreover have "0 \<notin> set qs"
    unfolding qs_def by (rule fresh_pids) (use assms(3) in blast)
  moreover have "set qs \<inter> pids s = {}" using assms(3) by (auto simp: qs_def)
  ultimately have q: "0 \<notin> set qs" "distinct qs" "set qs \<inter> pids s = {}" by simp_all
  have "map proc_pid (arrWorkers t) = map proc_pid (arrWorkers s) @ qs"
  proof (cases "int (length (arrWorkers s)) < NUM_WORKERS (conf s)")
    case True
    define u where "u = (if \<not> first_usage then increment ''worker.spawn.missing.count''
        (NUM_WORKERS (conf s) - int (length (arrWorkers s))) s else s)"
    have u: "pool_inv u" "pids u = pids s" "arrWorkers u = arrWorkers s"
      using assms(1) by (simp_all add: u_def pids_def)
    have "t = fold spawnWorker qs u"
      using True by (simp add: t_def ensure_worker_count_def u_def qs_def n_def Let_def)
    with fold_spawn_new [OF u(1) q(1,2)] q(3) u show ?thesis by simp
  next
    case False
    then show ?thesis by (simp add: t_def ensure_worker_count_def qs_def n_def)
  qed
  moreover from this have "length (arrWorkers t) = length (arrWorkers s) + n"
    by (metis diff_zero length_append length_map length_upt qs_def)
  ultimately show ?thesis by (auto simp: qs_def n_def)
qed

definition master_down :: master where
  "master_down = master_step (Worker_exit 100 (Some 1) False 5) master_busy"

theorem pool_is_filled_witness:
  "map proc_pid (arrWorkers (ensure_worker_count (\<lambda>i. 200 + i) False master_down)) = [101, 200]"
proof -
  have r: "master_reachable 3 master_down"
    unfolding master_down_def by (rule event [OF master_busy_reachable]) simp
  have p: "pids master_down = {101}" "map proc_pid (arrWorkers master_down) = [101]"
      "NUM_WORKERS (conf master_down) = 2" "length (arrWorkers master_down) = 1"
    unfolding pids_def by code_simp+
  have "pool_inv master_down" using reachable_parts [OF r] by simp
  from pool_is_filled [OF this, of "\<lambda>i. 200 + i" False] p show ?thesis by (simp add: inj_def)
qed

end
