(* ===== verification/Round_Properties.thy ===== *)
theory Round_Properties
  imports Master_Properties
begin

text \<open>
  When a round of the master ends, and what keeps the fetching of sites alive: the flags
  \<open>inRound\<close> and \<open>gettingSites\<close> over the events.
\<close>

section \<open>Effects outside the rounds\<close>

text \<open>A query for sites, or a timer after which one is made.\<close>

definition is_fetch :: "out \<Rightarrow> bool" where
  "is_fetch x = (case x of
      Set_timer t k \<Rightarrow> t = Next_round \<or> t = Restart_round
    | Db_call q \<Rightarrow> (case q of Pool_query p sql \<Rightarrow> is_prefix ''SELECT'' sql | Pool_reload \<Rightarrow> False)
    | _ \<Rightarrow> False)"

lemma is_fetch_simps [simp]:
  "\<not> is_fetch (Stat c)" "\<not> is_fetch (To_worker p r)" "\<not> is_fetch (Fork p)" "\<not> is_fetch (Notify nt)"
  "\<not> is_fetch (Ask_veriflier v b)" "\<not> is_fetch (Open_file j)" "\<not> is_fetch (Write_file fl ln)" "\<not> is_fetch (Set_timer Update_stats k)"
  "\<not> is_fetch (Db_call Pool_reload)" "is_fetch (Set_timer Next_round k)" "is_fetch (Set_timer Restart_round k)"
  by (simp_all add: is_fetch_def)

text \<open>What is known of the fetching: whether it is going on, and what is due of it.\<close>

definition same_fetch :: "master \<Rightarrow> master \<Rightarrow> bool" where
  "same_fetch s t \<longleftrightarrow> gettingSites t = gettingSites s \<and> queriesDue t = queriesDue s \<and>
     roundTimers t = roundTimers s \<and> restartTimers t = restartTimers s"

lemma same_fetch_refl [simp]: "same_fetch s s"
  by (simp add: same_fetch_def)

lemma same_fetch_trans: "same_fetch s t \<Longrightarrow> same_fetch t u \<Longrightarrow> same_fetch s u"
  by (simp add: same_fetch_def)

definition calm :: "master \<Rightarrow> master \<Rightarrow> bool" where
  "calm s t \<longleftrightarrow> inRound t = inRound s \<and> same_fetch s t \<and> endOfRound t = endOfRound s \<and>
     (\<exists>xs. outs t = outs s @ xs \<and> (\<forall>x \<in> set xs. \<not> is_fetch x))"

lemma calm_refl [simp]: "calm s s"
  by (simp add: calm_def)

lemma calm_trans:
  assumes "calm s t" and "calm t u"
  shows "calm s u"
proof -
  obtain xs ys where "outs t = outs s @ xs" "\<forall>x \<in> set xs. \<not> is_fetch x"
      "outs u = outs t @ ys" "\<forall>x \<in> set ys. \<not> is_fetch x"
    using assms by (auto simp: calm_def)
  then have "outs u = outs s @ (xs @ ys) \<and> (\<forall>x \<in> set (xs @ ys). \<not> is_fetch x)" by auto
  then have "\<exists>zs. outs u = outs s @ zs \<and> (\<forall>x \<in> set zs. \<not> is_fetch x)" by blast
  with assms show ?thesis by (auto simp: calm_def intro: same_fetch_trans)
qed

lemma calm_preorder: "preorder_rel calm"
  by (blast intro: preorder_relI calm_trans calm_refl)

lemmas calm_fold = fold_closed [OF calm_preorder]

lemma calm_update:
  "inRound t = inRound s \<Longrightarrow> same_fetch s t \<Longrightarrow> endOfRound t = endOfRound s \<Longrightarrow>
   outs t = outs s \<Longrightarrow> calm s t"
  by (simp add: calm_def)

lemma calm_emit [simp]: "\<not> is_fetch x \<Longrightarrow> calm s (emit x s)" "calm s (increment m v s)"
  by (simp_all add: calm_def same_fetch_def)

lemma updateSite_no_select:
  "\<forall>x \<in> set (map Db_call (snd (updateSite blog url st d))). \<not> is_fetch x"
  by (simp add: updateSite_def execQuery_def reload_if_pending_def update_query_def is_fetch_def)

lemma calm_notify [simp]: "calm s (notify srv st s)"
proof -
  obtain d calls n where n: "notifyStatusChange (conf s) srv st (database s) = (d, calls, n)"
    by (metis surj_pair)
  have "\<forall>x \<in> set (map Db_call calls). \<not> is_fetch x"
    using n updateSite_no_select [of "blog_id srv" "monitor_url srv" st "database s"]
    by (auto simp: notifyStatusChange_def Let_def split: prod.splits if_splits)
  then show ?thesis by (simp add: notify_def n calm_def same_fetch_def) (auto simp: emit_def emit_calls_def)
qed

lemma calm_announce [simp]: "calm s (announce k srv st s)"
proof -
  have "calm s (s\<lparr>openNotices := os\<rparr>)" for os by (simp add: calm_update same_fetch_def)
  from calm_trans [OF this calm_notify] show ?thesis by (simp add: announce_def)
qed

lemma calm_notify_again [simp]: "calm s (notify_again i s)"
  by (simp add: notify_again_def Let_def)

lemma calm_deleteWorker [simp]: "calm s (deleteWorker p s)"
  by (simp add: deleteWorker_def calm_def same_fetch_def Let_def)

lemma calm_spawnWorker [simp]: "calm s (spawnWorker p s)"
proof -
  define s1 where "s1 = increment ''worker.spawn.new.count'' 1 (emit (Fork p) s)"
  have "calm s s1" by (simp add: s1_def calm_def same_fetch_def)
  moreover have "calm (deleteWorker p s1) (spawnWorker p s)"
    by (simp add: spawnWorker_def Let_def s1_def calm_update same_fetch_def)
  ultimately show ?thesis using calm_trans calm_deleteWorker by blast
qed

lemma calm_worker_exit: "calm s (worker_exit p code e q s)"
proof (cases e)
  case False
  obtain m r where m: "exit_kind code = (m, r)" by (metis surj_pair)
  have 1: "calm s (deleteWorker p (increment m 1 s))"
    using calm_trans [OF calm_emit(2) calm_deleteWorker] .
  have "worker_exit p code e q s =
      (if r then spawnWorker q (deleteWorker p (increment m 1 s)) else deleteWorker p (increment m 1 s))"
    using False m by (simp add: worker_exit_def)
  then show ?thesis using 1 calm_trans [OF 1 calm_spawnWorker] by simp
qed (simp add: worker_exit_def)

lemma calm_ensure: "calm s (ensure_worker_count fresh b s)"
proof -
  have "calm u (fold spawnWorker qs u)" for u qs by (rule calm_fold) simp
  moreover have "calm s (if \<not> b then increment m v s else s)" for m v by simp
  ultimately have "calm s (fold spawnWorker qs (if \<not> b then increment m v s else s))" for qs m v
    using calm_trans by blast
  then show ?thesis by (simp only: ensure_worker_count_def Let_def calm_refl split: if_split) simp
qed

lemma calm_assign [simp]: "calm s (assign_work_to_worker p sz s)"
  by (auto simp: assign_work_to_worker_def get_work_dataset_def calm_def same_fetch_def Let_def split: option.split)

lemma calm_worker_stats: "calm s (worker_stats p rep cs s)"
proof -
  define u where "u = s\<lparr>checkStats := merge_stats (checkStats s) cs, workerStats := nobj_put p rep (workerStats s)\<rparr>"
  define v where "v = (if uptime rep > 5000 then increment ''worker.queue.queue_size'' (int (queueLength rep))
      (increment ''worker.queue.active'' (report_activeChecks rep) u) else u)"
  have 1: "calm s v" by (simp add: u_def v_def calm_def same_fetch_def)
  then show ?thesis using calm_trans [OF 1 calm_assign]
    by (simp add: worker_stats_def Let_def u_def [symmetric] v_def [symmetric])
qed

lemma calm_recheck: "calm s (recheck now sv s)"
  by (simp add: recheck_def add_server_to_local_retries_def host_check_request_def calm_update same_fetch_def)

lemma calm_checkHostStatus: "calm s (fst (checkHostStatus h d now s))"
proof -
  obtain q x where q: "answer_loop (peerLimit s) h d now (queuedRetries s) = (q, x)" by (metis surj_pair)
  define u where "u = s\<lparr>queuedRetries := q, openNotices := refresh q (openNotices s)\<rparr>"
  have 1: "calm s u" by (simp add: calm_update same_fetch_def u_def)
  have "calm s (announce (Some (retry_no r)) r SITE_DOWN u)" for r :: retry
    by (rule calm_trans [OF 1 calm_announce])
  with 1 show ?thesis
    by (simp add: checkHostStatus_def q Let_def flip: u_def split: sum.split option.split)
qed

lemma calm_ssl: "calm s (sslWorkerCallBack now m s)"
  by (cases m) (auto intro: calm_checkHostStatus check_each_closed [OF calm_preorder])

lemma calm_reload: "calm s (reload_signal fl s)"
proof (cases fl)
  case (Some c)
  have "calm u (fold (\<lambda>w. emit (To_worker (proc_pid w) Config_update)) ws u)" for u ws
    by (rule calm_fold) simp
  moreover have "calm s (increment ''config_reload.count'' 1 (s\<lparr>conf := c\<rparr>))" by (simp add: calm_def same_fetch_def)
  ultimately have "calm s (fold (\<lambda>w. emit (To_worker (proc_pid w) Config_update)) ws
      (increment ''config_reload.count'' 1 (s\<lparr>conf := c\<rparr>)))" for ws
    using calm_trans by blast
  then show ?thesis using Some by (simp add: reload_signal_def Let_def)
qed (simp add: reload_signal_def)

lemma calm_local_loop: "local_loop now k b s = (b', t) \<Longrightarrow> calm s t"
proof (induction k arbitrary: b s)
  case (Suc k)
  have d: "calm s (direct k i s)" "calm s (requeue k s)" for i
    by (simp_all add: direct_def requeue_def calm_def same_fetch_def)
  from Suc.prems show ?case
    unfolding local_loop_Suc
    by (auto split: if_splits option.splits dest!: Suc.IH intro: calm_trans [OF d(1)] calm_trans [OF d(2)])
qed simp

lemma calm_remote_tick:
  assumes "remote_tick now s = Some t"
  shows "calm s t"
proof -
  obtain bs where t: "t = fold ask_verifliers bs (s\<lparr>queuedRetries := kept (conf s) now (queuedRetries s)\<rparr>)"
    using remote_tick_spec [OF assms] by blast
  have "calm u (ask_verifliers b u)" for b u
    unfolding ask_verifliers_def by (rule calm_fold) simp
  then have "calm u (fold ask_verifliers bs u)" for u by (rule calm_fold)
  moreover have "calm s (s\<lparr>queuedRetries := q\<rparr>)" for q by (simp add: calm_update same_fetch_def)
  ultimately show ?thesis unfolding t using calm_trans by blast
qed

lemma calm_emit_stats [simp]: "calm s (emit_stats cs s)"
  by (auto simp: calm_def same_fetch_def emit_stats_def)

lemma calm_file_opened: "calm s (file_opened j s)"
  by (auto simp: calm_def) (auto simp: file_opened_def same_fetch_def)

lemma calm_updateStats:
  assumes "\<not> DEBUG (conf s)"
  shows "calm s (updateStats now rss s)"
proof -
  have "restart_if_late now s = s" using assms by (simp add: restart_if_late_def)
  then show ?thesis unfolding updateStats_def Let_def by (auto simp: calm_def same_fetch_def emit_stats_def)
qed

section \<open>The end of a round\<close>

definition round_ok :: "master \<Rightarrow> bool" where
  "round_ok s \<longleftrightarrow> inRound s \<or> (arrObjects s = [] \<and> length (arrWorkers s) = length (freeWorkers s))"

lemma round_ok_calm: "calm s t \<Longrightarrow> inRound s \<Longrightarrow> round_ok t"
  by (simp add: calm_def round_ok_def)

lemma inRound_getMoreSites [simp]: "inRound (getMoreSites now s)"
  by (auto simp: getMoreSites_def Let_def split_beta emit_calls_def)

lemma round_ok_maybeEndRound: "round_ok s \<Longrightarrow> round_ok (maybeEndRound now s)"
  by (auto simp: maybeEndRound_def round_ok_def Let_def)

lemma all_free:
  assumes "pool_ok s"
  shows "length (arrWorkers s) = length (freeWorkers s) \<longleftrightarrow> set (freeWorkers s) = pids s"
proof -
  have d: "distinct (freeWorkers s)" "distinct (map proc_pid (arrWorkers s))" "set (freeWorkers s) \<subseteq> pids s"
    using assms by (simp_all add: pool_ok_def pool_inv_def known_free_def)
  have c: "card (pids s) = length (arrWorkers s)"
    using d(2) distinct_card [of "map proc_pid (arrWorkers s)"] by (simp add: pids_def)
  have f: "card (set (freeWorkers s)) = length (freeWorkers s)" by (rule distinct_card [OF d(1)])
  have "finite (pids s)" by (simp add: pids_def)
  then show ?thesis using c f card_subset_eq [OF _ d(3)] by auto
qed

lemma round_ok_send_work:
  assumes "round_ok s" and "pool_ok s" and "p \<in> pids s"
  shows "round_ok (send_work now p s)"
proof -
  consider (surplus) "int (length (arrWorkers s)) > NUM_WORKERS (conf s)"
    | (idle) "\<not> int (length (arrWorkers s)) > NUM_WORKERS (conf s)" "arrObjects s = []"
    | (work) "\<not> int (length (arrWorkers s)) > NUM_WORKERS (conf s)" "arrObjects s \<noteq> []"
    by blast
  then show ?thesis
  proof cases
    case surplus
    with assms(1) show ?thesis by (simp add: send_work_def round_ok_def split: option.split)
  next
    case work
    with assms(1) have "inRound s" by (simp add: round_ok_def)
    with round_ok_calm [OF calm_assign] work show ?thesis by (simp add: send_work_def)
  next
    case idle
    define s1 where "s1 = (if p \<notin> set (haltedWorkers s) \<and> p \<notin> set (freeWorkers s)
                  then s\<lparr>freeWorkers := freeWorkers s @ [p]\<rparr> else s)"
    have "round_ok s1"
    proof (cases "inRound s")
      case False
      then have "p \<in> set (freeWorkers s)"
        using assms all_free [OF assms(2)] by (simp add: round_ok_def)
      then show ?thesis using assms(1) by (simp add: s1_def)
    qed (simp add: s1_def round_ok_def)
    then have "round_ok (if \<not> gettingSites s1 then getMoreSites now (s1\<lparr>gettingSites := True\<rparr>) else s1)"
      by (simp add: round_ok_def)
    from round_ok_maybeEndRound [OF this] idle show ?thesis
      by (simp add: send_work_def Let_def s1_def [symmetric])
  qed
qed

lemma pids_send_work [simp]: "pids (send_work now p s) = pids s"
  by (simp add: pids_def send_work_frame)

lemma round_ok_ask_each: "round_ok s \<Longrightarrow> pool_ok s \<Longrightarrow> round_ok (ask_each now ps s)"
proof (induction ps arbitrary: s)
  case (Cons p ps)
  show ?case
  proof (cases "getWorker p s = None")
    case False
    then have "p \<in> pids s" using getWorker_iff by blast
    with Cons.prems have "round_ok (send_work now p s)" "pool_ok (send_work now p s)"
      using round_ok_send_work send_work_inv send_work_known by (auto simp: pool_ok_def)
    from Cons.IH [OF this] False show ?thesis by simp
  qed (use Cons in simp)
qed simp

lemma round_ok_freeWorkersToWork:
  assumes "inRound s" and "pool_inv (s\<lparr>freeWorkers := []\<rparr>)"
  shows "round_ok (freeWorkersToWork now s)"
proof (cases "arrObjects s = []")
  case True
  with assms(1) show ?thesis by (simp add: freeWorkersToWork_def round_ok_def)
next
  case False
  have "round_ok (ask_each now (freeWorkers s) (s\<lparr>freeWorkers := []\<rparr>))"
    using assms by (intro round_ok_ask_each) (simp_all add: round_ok_def pool_ok_def known_free_def)
  with False show ?thesis by (simp add: freeWorkersToWork_def)
qed

lemma pool_emptied: "pool_inv s \<Longrightarrow> pool_inv (s\<lparr>freeWorkers := []\<rparr>)"
  by (simp add: pool_inv_def pids_def)

lemma inRound_updateStats [simp]: "inRound (updateStats now rss s) = inRound s"
  by (simp add: updateStats_def restart_if_late_def resetVariables_def emit_stats_def Let_def)

lemma round_ok_tick:
  assumes "inRound s" and "tick_inv s" and "processQueuedRetries now s = Some t"
  shows "round_ok t"
proof -
  obtain u where u: "remote_tick now s = Some u" "t = local_tick now u"
    using assms(3) by (auto simp: processQueuedRetries_def)
  obtain b v where v: "local_loop now (length (localRetries u)) False u = (b, v)" by (metis surj_pair)
  have i: "idle_effect s u" "freeWorkers u = freeWorkers s" using idle_remote_tick [OF u(1)] by simp_all
  then have "tick_inv u"
    using assms(2) idle_same_pool [OF i] same_pool_inv serves_sites [OF serves_idle [OF i(1)]]
    by (auto simp: tick_inv_def)
  from local_loop_inv [OF this order_refl v] have "pool_inv v" by (simp add: tick_inv_def)
  moreover have "inRound v"
    using calm_trans [OF calm_remote_tick [OF u(1)] calm_local_loop [OF v]] assms(1) by (simp add: calm_def)
  ultimately show ?thesis
    using round_ok_freeWorkersToWork pool_emptied u(2) v
    by (simp add: local_tick_def round_ok_def split: if_split)
qed

lemma round_ok_batch:
  assumes "inRound s" and "pool_inv s"
  shows "round_ok (batch_result now started res s)"
proof -
  obtain d got where g: "batch_answer (conf s) res (database s) = (d, got)" by (metis surj_pair)
  define v where "v rows = (timing ''db.get_next_batch'' (now - started) (s\<lparr>database := d\<rparr>))
        \<lparr>arrObjects := arrObjects s @ map site_of_row rows, gettingSites := False\<rparr>" for rows
  have "pool_inv ((v rows)\<lparr>freeWorkers := []\<rparr>)" "inRound (v rows)" for rows
    using assms by (simp_all add: v_def pool_inv_def pids_def)
  from round_ok_freeWorkersToWork [OF this(2,1)] assms(1) show ?thesis
    by (simp add: batch_result_def g batch_rows_def v_def round_ok_def Let_def split: option.split)
qed

lemma round_ok_step:
  assumes "master_inv N s" and "master_ok N e s" and "inRound s"
  shows "round_ok (master_step e s)"
proof -
  have p: "pool_inv s" "known_free s" "sites_inv s" using assms(1) by (simp_all add: master_inv_def)
  have k: "round_ok s" using assms(3) by (simp add: round_ok_def)
  show ?thesis
  proof (cases e)
    case (Worker_msg now m)
    have st: "inRound (if P then s\<lparr>haltedWorkers := h, freeWorkers := f\<rparr> else s)" for P h f
      using assms(3) by simp
    show ?thesis
    proof (cases m)
      case (Totals t)
      with Worker_msg assms(3) show ?thesis by (simp add: count_totals_def round_ok_def)
    next
      case (Stop_work q)
      have "round_ok (stop_work now q s)"
        unfolding stop_work_def
        by (rule round_ok_maybeEndRound) (use st in \<open>simp add: round_ok_def\<close>)
      with Worker_msg Stop_work show ?thesis by simp
    next
      case (Send_work q)
      with Worker_msg assms(2) round_ok_send_work [OF k] p show ?thesis by (simp add: pool_ok_def)
    next
      case (Recheck sv)
      with Worker_msg round_ok_calm [OF calm_recheck assms(3)] show ?thesis by simp
    next
      case (Stats q rep cs)
      with Worker_msg round_ok_calm [OF calm_worker_stats assms(3)] show ?thesis by simp
    next
      case (Notify_still_down sv)
      with Worker_msg round_ok_calm [OF calm_announce assms(3)] show ?thesis by simp
    next
      case (Notify_status_change sv)
      with Worker_msg round_ok_calm [OF calm_announce assms(3)] show ?thesis by simp
    qed (use Worker_msg k in simp)
  next
    case (Worker_exit q code b r)
    with round_ok_calm [OF calm_worker_exit assms(3)] show ?thesis by simp
  next
    case (Count_timer fresh)
    with round_ok_calm [OF calm_ensure assms(3)] show ?thesis by simp
  next
    case (Ssl_msg now m)
    with round_ok_calm [OF calm_ssl assms(3)] show ?thesis by simp
  next
    case (Tick now)
    with round_ok_tick [OF assms(3)] k p show ?thesis by (auto simp: tick_inv_def split: option.split)
  next
    case (Wpcom_failed i)
    with round_ok_calm [OF calm_notify_again assms(3)] show ?thesis by simp
  next
    case (Reload fl)
    with round_ok_calm [OF calm_reload assms(3)] show ?thesis by simp
  next
    case (Batch now started res)
    have "pool_inv (s\<lparr>queriesDue := n\<rparr>)" for n using p(1) by (simp add: pool_inv_def pids_def)
    with Batch round_ok_batch [OF _ this] assms(3) show ?thesis by simp
  qed (use assms(3) in \<open>simp_all add: round_ok_def next_round_timer_def\<close>)
qed

text \<open>
  C26. The end of a round is announced only when there is nothing left to do: the event that ends a
  round leaves no site in the queue and every registered worker waiting for work.
\<close>

theorem round_ends_when_done:
  assumes "master_reachable N s" and "master_ok N e s"
    and "inRound s" and "\<not> inRound (master_step e s)"
  shows "arrObjects (master_step e s) = [] \<and> set (freeWorkers (master_step e s)) = pids (master_step e s)"
proof -
  have "master_inv N (master_step e s)"
    using reachable_master_inv [OF master_reachable.event [OF assms(1,2)]] .
  then have "pool_ok (master_step e s)" by (simp add: master_inv_def pool_ok_def)
  with all_free round_ok_step [OF reachable_master_inv [OF assms(1)] assms(2,3)] assms(4)
  show ?thesis by (simp add: round_ok_def)
qed

definition master_last :: master where
  "master_last = fold master_step
     [Worker_msg 6 (Send_work 101), Worker_msg 7 (Send_work 101)] master_busy"

theorem round_ends_when_done_witness:
  "inRound master_last \<and> set (freeWorkers (master_step (Worker_msg 8 (Send_work 100)) master_last)) = {100, 101}"
proof -
  have "ms.admissible 3 [Worker_msg 6 (Send_work 101), Worker_msg 7 (Send_work 101)] master_busy"
    unfolding ms.admissible.simps master_ok.simps msg_ok.simps pids_def by code_simp
  from reachable_master_run [OF master_busy_reachable this]
  have r: "master_reachable 3 master_last" by (simp add: master_last_def)
  have f: "inRound master_last" "\<not> inRound (master_step (Worker_msg 8 (Send_work 100)) master_last)"
    by code_simp+
  have o: "master_ok 3 (Worker_msg 8 (Send_work 100)) master_last"
    unfolding master_ok.simps msg_ok.simps pids_def by code_simp
  have "pids (master_step (Worker_msg 8 (Send_work 100)) master_last) = {100, 101}"
    unfolding pids_def by code_simp
  with round_ends_when_done [OF r o f] f show ?thesis by simp
qed

text \<open>
  The test for the end of a round does not look at the query in progress: when the last worker
  asks for work while the next batch is being fetched, the round is reported as complete, in the
  middle of it (\<open>endOfRound\<close> is as it was) and with the batch still to come.
\<close>

theorem round_ends_while_fetching:
  fixes now :: int
  assumes "master_reachable N s" and "inRound s" and "gettingSites s" and "arrObjects s = []"
    and "p \<in> pids s" and "p \<notin> set (haltedWorkers s)" and "set (freeWorkers s) = pids s - {p}"
    and "int (length (arrWorkers s)) \<le> NUM_WORKERS (conf s)"
  defines "t \<equiv> master_step (Worker_msg now (Send_work p)) s"
  shows "\<not> inRound t \<and> gettingSites t \<and> endOfRound t = endOfRound s \<and> roundSitesCount t = 0 \<and>
    Stat (Timing ''round.complete.time'' (VInt (now - startTime s))) \<in> set (effects (Worker_msg now (Send_work p)) s)"
proof -
  have p: "pool_ok s" using reachable_parts [OF assms(1)] by (simp add: pool_ok_def)
  define u where "u = s\<lparr>freeWorkers := freeWorkers s @ [p]\<rparr>"
  have "known_free u" using p assms(5) by (simp add: u_def known_free_def pids_def pool_ok_def)
  moreover have "pool_inv u"
    using p assms(4-7) by (auto simp: u_def pids_def pool_ok_def pool_inv_def)
  ultimately have "pool_ok u" by (simp add: pool_ok_def)
  moreover have "set (freeWorkers u) = pids u" using assms(5,7) by (auto simp: u_def pids_def)
  ultimately have l: "length (arrWorkers u) = length (freeWorkers u)" using all_free by blast
  have t: "t = maybeEndRound now u"
    using assms(3-8) by (simp add: t_def send_work_def u_def Let_def)
  have o: "inRound u" "arrObjects u = []" "gettingSites u" "endOfRound u = endOfRound s"
      "startTime u = startTime s" "outs u = outs s"
    using assms(2-4) by (simp_all add: u_def)
  have "\<exists>xs. outs (maybeEndRound now u) = outs s @ Stat (Timing ''round.complete.time'' (VInt (now - startTime s))) # xs"
    using o l by (simp add: maybeEndRound_def Let_def)
  then obtain xs where "outs t = outs s @ Stat (Timing ''round.complete.time'' (VInt (now - startTime s))) # xs"
    using t by blast
  then have "effects (Worker_msg now (Send_work p)) s =
      Stat (Timing ''round.complete.time'' (VInt (now - startTime s))) # xs"
    unfolding t_def by (rule effectsI)
  moreover have "\<not> inRound t \<and> gettingSites t \<and> endOfRound t = endOfRound s \<and> roundSitesCount t = 0"
    using o l by (simp add: t maybeEndRound_def Let_def)
  ultimately show ?thesis by simp
qed

lemma master_last_reachable: "master_reachable 3 master_last"
proof -
  have "ms.admissible 3 [Worker_msg 6 (Send_work 101), Worker_msg 7 (Send_work 101)] master_busy"
    unfolding ms.admissible.simps master_ok.simps msg_ok.simps pids_def by code_simp
  from reachable_master_run [OF master_busy_reachable this] show ?thesis by (simp add: master_last_def)
qed

theorem round_ends_while_fetching_witness:
  "\<not> inRound (master_step (Worker_msg 8 (Send_work 100)) master_last) \<and>
   gettingSites (master_step (Worker_msg 8 (Send_work 100)) master_last) \<and>
   \<not> endOfRound (master_step (Worker_msg 8 (Send_work 100)) master_last)"
proof -
  have f: "inRound master_last" "gettingSites master_last" "arrObjects master_last = []"
      "100 \<notin> set (haltedWorkers master_last)"
      "int (length (arrWorkers master_last)) \<le> NUM_WORKERS (conf master_last)" "\<not> endOfRound master_last"
    by code_simp+
  have p: "100 \<in> pids master_last" "set (freeWorkers master_last) = pids master_last - {100}"
    unfolding pids_def by code_simp+
  from round_ends_while_fetching [OF master_last_reachable f(1-3) p(1) f(4) p(2) f(5), of 8] f(6)
  show ?thesis by simp
qed

section \<open>A failed query\<close>

text \<open>
  As long as DEBUG is never set: at most one query or one timer for the next round is due, and none
  while no fetching is going on.
\<close>

definition one_fetch :: "master \<Rightarrow> bool" where
  "one_fetch s \<longleftrightarrow> queriesDue s + roundTimers s \<le> (if gettingSites s then 1 else 0) \<and> restartTimers s = 0"

lemma one_fetch_same: "same_fetch s t \<Longrightarrow> one_fetch s \<Longrightarrow> one_fetch t"
  by (simp add: same_fetch_def one_fetch_def)

lemma one_fetch_calm: "calm s t \<Longrightarrow> one_fetch s \<Longrightarrow> one_fetch t"
  using one_fetch_same unfolding calm_def by blast

lemma one_fetch_none: "queriesDue s = 0 \<Longrightarrow> roundTimers s = 0 \<Longrightarrow> restartTimers s = 0 \<Longrightarrow> one_fetch s"
  by (simp add: one_fetch_def)

text \<open>
  A state in which the fetching goes on with nothing due of it.  A step that \<open>stalls\<close> leaves it so and
  makes no query and sets no timer for one.
\<close>

definition stopped :: "master \<Rightarrow> bool" where
  "stopped s \<longleftrightarrow> gettingSites s \<and> queriesDue s = 0 \<and> roundTimers s = 0 \<and> restartTimers s = 0"

definition stalled :: "master \<Rightarrow> master \<Rightarrow> bool" where
  "stalled s t \<longleftrightarrow> (gettingSites s \<longrightarrow> same_fetch s t \<and>
     (\<exists>xs. outs t = outs s @ xs \<and> (\<forall>x \<in> set xs. \<not> is_fetch x)))"

lemma stalled_calm: "calm s t \<Longrightarrow> stalled s t"
  by (simp add: calm_def stalled_def)

lemma stalled_refl [simp]: "stalled s s"
  by (simp add: stalled_def)

lemma stalled_trans:
  assumes "stalled s t" and "stalled t u"
  shows "stalled s u"
proof (cases "gettingSites s")
  case True
  then have t: "gettingSites t" using assms(1) by (simp add: stalled_def same_fetch_def)
  with True obtain xs ys where "outs t = outs s @ xs" "\<forall>x \<in> set xs. \<not> is_fetch x"
      "outs u = outs t @ ys" "\<forall>x \<in> set ys. \<not> is_fetch x"
    using assms by (auto simp: stalled_def)
  then have "outs u = outs s @ (xs @ ys) \<and> (\<forall>x \<in> set (xs @ ys). \<not> is_fetch x)" by auto
  moreover have "same_fetch s u" using assms True t same_fetch_trans by (auto simp: stalled_def)
  ultimately show ?thesis unfolding stalled_def by blast
qed (simp add: stalled_def)

lemma stopped_stalled: "stopped s \<Longrightarrow> stalled s t \<Longrightarrow> stopped t"
  by (simp add: stopped_def stalled_def same_fetch_def)

lemma stalled_update: "same_fetch s t \<Longrightarrow> outs t = outs s \<Longrightarrow> stalled s t"
  by (simp add: stalled_def)

lemma same_fetch_maybeEndRound [simp]: "same_fetch s (maybeEndRound now s)"
  by (auto simp: same_fetch_def maybeEndRound_def Let_def)

lemma stalled_maybeEndRound [simp]: "stalled s (maybeEndRound now s)"
  by (auto simp: stalled_def) (auto simp: maybeEndRound_def Let_def)

lemma stalled_send_work [simp]: "stalled s (send_work now p s)"
proof (cases "gettingSites s")
  case True
  define s1 where "s1 = (if p \<notin> set (haltedWorkers s) \<and> p \<notin> set (freeWorkers s)
                  then s\<lparr>freeWorkers := freeWorkers s @ [p]\<rparr> else s)"
  have "stalled s s1" "gettingSites s1" using True by (simp_all add: s1_def stalled_def same_fetch_def)
  then have "stalled s (maybeEndRound now (if \<not> gettingSites s1
      then getMoreSites now (s1\<lparr>gettingSites := True\<rparr>) else s1))"
    using stalled_trans [OF _ stalled_maybeEndRound] by simp
  moreover have "stalled s (assign_work_to_worker p sz s)" for sz by (rule stalled_calm) simp
  moreover have "stalled s (emit (To_worker q Evaporate) s)" for q by (rule stalled_calm) simp
  ultimately show ?thesis
    by (simp add: send_work_def Let_def s1_def [symmetric] split: option.split)
qed (simp add: stalled_def)

lemma stalled_ask_each [simp]: "stalled s (ask_each now ps s)"
proof (induction ps arbitrary: s)
  case (Cons p ps)
  have "stalled s (if getWorker p s \<noteq> None then send_work now p s else s)" by simp
  from stalled_trans [OF this Cons.IH] show ?case by simp
qed simp

lemma stalled_freeWorkersToWork [simp]: "stalled s (freeWorkersToWork now s)"
  using stalled_trans [OF stalled_update [of s "s\<lparr>freeWorkers := []\<rparr>"] stalled_ask_each]
  by (simp add: freeWorkersToWork_def same_fetch_def)

fun debugs :: "master_event \<Rightarrow> bool" where
  "debugs (Reload (Some c)) \<longleftrightarrow> DEBUG c"
| "debugs e \<longleftrightarrow> False"

lemma stalled_msg: "stalled s (workerMsgCallback now m s)"
proof (cases m)
  case (Stop_work p)
  have "stalled s (if p \<notin> set (haltedWorkers s) \<and> getWorker p s \<noteq> None
        then s\<lparr>haltedWorkers := haltedWorkers s @ [p],
               freeWorkers := filter (\<lambda>a. a \<noteq> p) (freeWorkers s)\<rparr> else s)"
    by (simp add: stalled_def same_fetch_def)
  from stalled_trans [OF this stalled_maybeEndRound] Stop_work show ?thesis by (simp add: stop_work_def)
next
  case (Totals t)
  then show ?thesis by (simp add: count_totals_def stalled_update same_fetch_def)
qed (auto intro!: stalled_calm calm_recheck calm_worker_stats)

lemma calm_tick:
  assumes "processQueuedRetries now s = Some t"
  shows "\<exists>u. calm s u \<and> (t = u \<or> t = freeWorkersToWork now u)"
proof -
  obtain u where u: "remote_tick now s = Some u" "t = local_tick now u"
    using assms by (auto simp: processQueuedRetries_def)
  obtain b v where v: "local_loop now (length (localRetries u)) False u = (b, v)" by (metis surj_pair)
  have "calm s v" using calm_trans [OF calm_remote_tick [OF u(1)] calm_local_loop [OF v]] .
  then show ?thesis using u(2) v by (intro exI [of _ v]) (simp add: local_tick_def)
qed

text \<open>Every event but an answer to a query and the timers set for one stalls.\<close>

lemma stalled_step:
  assumes "\<not> DEBUG (conf s)"
    and "case e of Batch now started res \<Rightarrow> False | Round_timer now \<Rightarrow> False | Restart_timer now \<Rightarrow> False | _ \<Rightarrow> True"
  shows "stalled s (master_step e s)"
proof (cases e)
  case (Worker_msg now m)
  with stalled_msg show ?thesis by simp
next
  case (Tick now)
  show ?thesis
  proof (cases "processQueuedRetries now s")
    case (Some t)
    with calm_tick stalled_calm stalled_trans [OF stalled_calm stalled_freeWorkersToWork] Tick
    show ?thesis by fastforce
  qed (simp add: Tick)
next
  case (Stats_tick now rss)
  with stalled_calm [OF calm_updateStats [OF assms(1)]] show ?thesis by simp
next
  case (Db_updated b)
  then show ?thesis by (simp add: stalled_update same_fetch_def)
qed (use assms(2) in \<open>auto intro!: stalled_calm calm_worker_exit calm_ensure calm_ssl calm_reload calm_file_opened\<close>)

section \<open>What is due\<close>

lemma one_fetch_more:
  "queriesDue s = 0 \<Longrightarrow> roundTimers s = 0 \<Longrightarrow> restartTimers s = 0 \<Longrightarrow> one_fetch (getMoreSites now s)"
  by (simp add: one_fetch_def getMoreSites_def emit_calls_def Let_def split: prod.split)

lemma one_fetch_send_work: "one_fetch s \<Longrightarrow> one_fetch (send_work now p s)"
proof (cases "gettingSites s")
  case True
  assume "one_fetch s"
  moreover have "same_fetch s (send_work now p s)" using True stalled_send_work by (simp add: stalled_def)
  ultimately show ?thesis by (rule one_fetch_same [rotated])
next
  case False
  assume s: "one_fetch s"
  define s1 where "s1 = (if p \<notin> set (haltedWorkers s) \<and> p \<notin> set (freeWorkers s)
                  then s\<lparr>freeWorkers := freeWorkers s @ [p]\<rparr> else s)"
  have "one_fetch (getMoreSites now (s1\<lparr>gettingSites := True\<rparr>))"
    by (rule one_fetch_more) (use s False in \<open>simp_all add: s1_def one_fetch_def\<close>)
  then have "one_fetch (maybeEndRound now (getMoreSites now (s1\<lparr>gettingSites := True\<rparr>)))"
    using one_fetch_same [OF same_fetch_maybeEndRound] by blast
  moreover have "\<not> gettingSites s1" using False by (simp add: s1_def)
  ultimately show ?thesis
    using s one_fetch_calm [OF calm_assign s] one_fetch_calm [OF calm_emit(1) s]
    by (simp add: send_work_def Let_def s1_def [symmetric] split: option.split)
qed

lemma one_fetch_ask_each: "one_fetch s \<Longrightarrow> one_fetch (ask_each now ps s)"
  by (induction ps arbitrary: s) (simp_all add: one_fetch_send_work)

lemma one_fetch_freeWorkersToWork: "one_fetch s \<Longrightarrow> one_fetch (freeWorkersToWork now s)"
  using one_fetch_ask_each [of "s\<lparr>freeWorkers := []\<rparr>" now "freeWorkers s"] one_fetch_same [of s "s\<lparr>freeWorkers := []\<rparr>"]
  by (simp add: freeWorkersToWork_def same_fetch_def)

lemma one_fetch_batch:
  assumes "queriesDue s = 0" and "roundTimers s = 0" and "restartTimers s = 0"
  shows "one_fetch (batch_result now started res s)"
proof -
  obtain d got where g: "batch_answer (conf s) res (database s) = (d, got)" by (metis surj_pair)
  have "one_fetch (getMoreSites now (s\<lparr>database := d\<rparr>))" by (rule one_fetch_more) (simp_all add: assms)
  moreover have "one_fetch (freeWorkersToWork now ((timing m v (s\<lparr>database := d\<rparr>))\<lparr>arrObjects := xs, gettingSites := b\<rparr>))"
    for m v xs b by (intro one_fetch_freeWorkersToWork one_fetch_none) (simp_all add: assms)
  ultimately have "one_fetch (batch_rows now started rows (s\<lparr>database := d\<rparr>))" for rows
    by (simp add: batch_rows_def Let_def split: option.split)
  moreover have "one_fetch (s\<lparr>database := d\<rparr>)" using assms by (intro one_fetch_none) simp_all
  ultimately show ?thesis using g by (simp add: batch_result_def split: option.split)
qed

lemma one_fetch_step:
  assumes "one_fetch s" and "\<not> DEBUG (conf s)" and "master_ok N e s"
  shows "one_fetch (master_step e s)"
proof -
  have due: "0 < queriesDue s \<Longrightarrow> queriesDue s = 1 \<and> roundTimers s = 0"
      "0 < roundTimers s \<Longrightarrow> roundTimers s = 1 \<and> queriesDue s = 0" "restartTimers s = 0"
    using assms(1) by (auto simp: one_fetch_def split: if_splits)
  show ?thesis
  proof (cases e)
    case (Batch now started res)
    then show ?thesis using due assms(3) by (simp add: one_fetch_batch)
  next
    case (Round_timer now)
    then show ?thesis using due assms(3) by (simp add: next_round_timer_def resetVariables_def one_fetch_more)
  next
    case (Restart_timer now)
    then show ?thesis using due assms(3) by simp
  next
    case (Worker_msg now m)
    have "calm s (workerMsgCallback now m s) \<or> (\<exists>p. m = Send_work p) \<or> (\<exists>p. m = Stop_work p)"
      by (cases m) (auto intro: calm_recheck calm_worker_stats calm_update
          simp: count_totals_def same_fetch_def)
    moreover have "same_fetch s (stop_work now p s)" for p
      unfolding stop_work_def by (rule same_fetch_trans [OF _ same_fetch_maybeEndRound]) (simp add: same_fetch_def)
    then have "one_fetch (stop_work now p s)" for p using one_fetch_same assms(1) by blast
    ultimately show ?thesis
      using Worker_msg assms(1) one_fetch_calm one_fetch_send_work by auto
  next
    case (Tick now)
    then show ?thesis
      using calm_tick [of now s] assms(1) one_fetch_calm one_fetch_freeWorkersToWork
      by (fastforce split: option.split)
  next
    case (Stats_tick now rss)
    with one_fetch_calm [OF calm_updateStats [OF assms(2)] assms(1)] show ?thesis by simp
  next
    case (Db_updated b)
    then show ?thesis using assms(1) by (simp add: one_fetch_def)
  qed (use assms(1) in \<open>auto intro!: one_fetch_calm [OF _ assms(1)] calm_worker_exit calm_ensure calm_ssl calm_reload calm_file_opened\<close>)
qed

text \<open>The states a process can reach that never reads a configuration with DEBUG set.\<close>

inductive plain_reachable :: "int \<Rightarrow> master \<Rightarrow> bool" for N :: int where
  starts: "master_init N s \<Longrightarrow> \<not> DEBUG (conf s) \<Longrightarrow> plain_reachable N s"
| goes_on: "plain_reachable N s \<Longrightarrow> master_ok N e s \<Longrightarrow> \<not> debugs e \<Longrightarrow> plain_reachable N (master_step e s)"

lemma debug_step: "\<not> DEBUG (conf s) \<Longrightarrow> \<not> debugs e \<Longrightarrow> \<not> DEBUG (conf (master_step e s))"
  by (cases e rule: debugs.cases) (simp_all add: conf_step del: master_step.simps)

lemma plain_one_fetch: "plain_reachable N s \<Longrightarrow> one_fetch s \<and> \<not> DEBUG (conf s)"
proof (induction rule: plain_reachable.induct)
  case (starts s)
  then obtain c now fresh where s: "s = ensure_worker_count fresh True (boot_master c now)"
    by (auto simp: master_init_def)
  have "one_fetch (boot_master c now)" by (simp add: one_fetch_def boot_master_def)
  then have "one_fetch s" unfolding s by (rule one_fetch_calm [OF calm_ensure])
  with starts show ?case by simp
next
  case (goes_on s e)
  then show ?case using one_fetch_step debug_step by blast
qed

lemma stopped_step:
  assumes "stopped s" and "\<not> DEBUG (conf s)" and "master_ok N e s"
  shows "stalled s (master_step e s)"
  by (rule stalled_step [OF assms(2)]) (use assms(1,3) in \<open>cases e; simp add: stopped_def\<close>)

lemma stopped_run:
  "stopped s \<Longrightarrow> \<not> DEBUG (conf s) \<Longrightarrow> ms.admissible N es s \<Longrightarrow> \<forall>e \<in> set es. \<not> debugs e \<Longrightarrow>
   stalled s (fold master_step es s)"
proof (induction es arbitrary: s)
  case (Cons e es)
  have 1: "stalled s (master_step e s)" using Cons.prems by (intro stopped_step [where N = N]) simp_all
  have "stalled (master_step e s) (fold master_step es (master_step e s))"
    using Cons.prems by (intro Cons.IH stopped_stalled [OF _ 1] debug_step) simp_all
  from stalled_trans [OF 1 this] show ?case by simp
qed simp

text \<open>
  C27. A failed query stops the monitoring.  In a process that has not read a configuration with DEBUG set,
  when a batch query is answered by an error, no event that can follow makes a query for sites or sets
  a timer for one, for as long as no such configuration is read: no query is due any more, no timer is,
  and \<open>gettingSites\<close> stays set, so the workers' requests for work make none either.
\<close>

theorem failed_query_stops_fetching:
  assumes "plain_reachable N s" and "ms.admissible N (Batch now started (Some err, rows) # es) s"
    and "\<forall>e \<in> set es. \<not> debugs e"
  shows "\<exists>xs. outs (fold master_step (Batch now started (Some err, rows) # es) s) = outs s @ xs \<and>
    (\<forall>x \<in> set xs. \<not> is_fetch x) \<and>
    gettingSites (fold master_step (Batch now started (Some err, rows) # es) s)"
proof -
  define t where "t = master_step (Batch now started (Some err, rows)) s"
  obtain d where t: "t = s\<lparr>queriesDue := queriesDue s - 1, database := d\<rparr>"
    by (simp add: t_def batch_result_def batch_answer_def)
  have s: "one_fetch s" "\<not> DEBUG (conf s)" "0 < queriesDue s"
    using plain_one_fetch [OF assms(1)] assms(2) by simp_all
  then have "stopped t" by (auto simp: t one_fetch_def stopped_def split: if_splits)
  moreover have "\<not> DEBUG (conf t)" using s by (simp add: t)
  ultimately have st: "stalled t (fold master_step es t)" "stopped t"
    using assms(2,3) by (auto simp: t_def intro!: stopped_run)
  then have "outs t = outs s" "gettingSites t" by (simp_all add: t stopped_def)
  moreover have "fold master_step (Batch now started (Some err, rows) # es) s = fold master_step es t"
    by (simp add: t_def)
  ultimately show ?thesis using st(1) by (auto simp: stalled_def same_fetch_def simp del: fold_simps)
qed

lemma tick_idle: "unsent (queuedRetries s) = [] \<Longrightarrow> processQueuedRetries now s \<noteq> None"
  using remote_tick_returns [of now s] by (simp add: processQueuedRetries_def)

definition quiet_config :: config where
  "quiet_config = demo_master_config\<lparr>DEBUG := False\<rparr>"

definition quiet_start :: master where
  "quiet_start = ensure_worker_count demo_pid True (boot_master quiet_config 0)"

definition fetching_master :: master where
  "fetching_master = master_step (Worker_msg 1 (Send_work 100)) quiet_start"

lemma fetching_master_reachable: "plain_reachable 3 fetching_master"
  unfolding fetching_master_def
proof (rule goes_on [OF starts])
  show "master_init 3 quiet_start"
    unfolding master_init_def quiet_start_def
    by (intro exI [of _ quiet_config] exI [of _ 0] exI [of _ demo_pid])
      (simp add: demo_pid_def quiet_config_def demo_master_config_def sample_config_def)
  show "\<not> DEBUG (conf quiet_start)" by code_simp
  show "master_ok 3 (Worker_msg 1 (Send_work 100)) quiet_start"
    unfolding master_ok.simps msg_ok.simps pids_def by code_simp
qed simp

theorem failed_query_stops_fetching_witness:
  "gettingSites (fold master_step
     [Batch 9 1 (Some ''timeout'', None), Worker_msg 10 (Send_work 101), Worker_msg 11 (Send_work 100),
      Stats_tick 1000000 5, Tick 2000000] fetching_master)"
proof -
  let ?es = "[Worker_msg 10 (Send_work 101), Worker_msg 11 (Send_work 100), Stats_tick 1000000 5, Tick 2000000]"
  have "ms.admissible 3 (Batch 9 1 (Some ''timeout'', None) # ?es) fetching_master"
    unfolding ms.admissible.simps master_ok.simps msg_ok.simps pids_def
    by (intro conjI TrueI tick_idle; code_simp)
  moreover have "\<forall>e \<in> set ?es. \<not> debugs e" by simp
  ultimately show ?thesis
    using failed_query_stops_fetching [OF fetching_master_reachable, of 9 1 "''timeout''" None ?es] by blast
qed

end
