(* ===== verification/Worker.thy ===== *)
theory Worker
  imports Sites
begin

text \<open>
  A worker process, \<open>lib/httpcheck.js\<close>: the queue of sites it was given, the checks it has running in
  the native add-on, and the protocol it speaks with the master.  The state holds the module's
  variables, one field each, and the part of the outside the code relies on: the checks handed to
  the add-on that have not called back (\<open>inflight\<close>), the pending 50 ms timers (\<open>timers\<close>), the messages
  sent, the requests made and, once \<open>process.exit\<close> was called, the exit code.  The add-on, the clock
  and the memory meter are inputs: a callback brings its index, times and codes, and a handler the
  time and the resident set size it reads.
\<close>

section \<open>State\<close>

record worker =
  pid :: nat
  hostname :: string
  cfg :: config
  arrCheck :: "site list"
  running :: bool
  askedForWork :: bool
  availableForWork :: bool
  suicideSignal :: bool
  pointer :: nat
  activeChecks :: int
  totalChecks :: int
  createdTime :: int
  maxChecks :: int
  maxMemUsage :: int
  workerTotals :: totals
  workerCheckStats :: check_stats
  inflight :: "nat list"
  timers :: nat
  requests :: "(string \<times> int \<times> nat) list"
  posted :: "worker_msg list"
  exited :: "int option"

definition DEFAULT_HTTP_PORT :: int where "DEFAULT_HTTP_PORT = 80"

text \<open>\<open>Number.MAX_VALUE\<close>.\<close>

definition MAX_VALUE :: int where "MAX_VALUE = (2 ^ 53 - 1) * 2 ^ 971"

definition post :: "worker_msg \<Rightarrow> worker \<Rightarrow> worker" where
  "post m w = w\<lparr>posted := posted w @ [m]\<rparr>"

text \<open>
  \<open>reloadConfig\<close>.  \<open>rnd m\<close> is the value of \<open>Math.floor( Math.random() * m )\<close>, a number from 0 to
  \<open>m - 1\<close>.
\<close>

definition reloadConfig :: "(int \<Rightarrow> int) \<Rightarrow> worker \<Rightarrow> worker" where
  "reloadConfig rnd w =
     (let mc = js_or (WORKER_MAX_CHECKS (cfg w)) 0;
          mm = js_or (WORKER_MAX_MEM_MB (cfg w)) 96;
          w1 = (if mc > 0 then w\<lparr>maxChecks := mc, totalChecks := rnd mc\<rparr>
                else w\<lparr>maxChecks := MAX_VALUE\<rparr>)
      in w1\<lparr>maxMemUsage := (if mm > 0 then mm * 1024 * 1024 else MAX_VALUE)\<rparr>)"

definition boot_worker :: "nat \<Rightarrow> string \<Rightarrow> config \<Rightarrow> int \<Rightarrow> (int \<Rightarrow> int) \<Rightarrow> worker" where
  "boot_worker p h c now rnd = reloadConfig rnd
     \<lparr>pid = p, hostname = h, cfg = c, arrCheck = [], running = False, askedForWork = False,
      availableForWork = True, suicideSignal = False, pointer = 0, activeChecks = 0,
      totalChecks = 0, createdTime = now, maxChecks = 0, maxMemUsage = 0,
      workerTotals = zero_totals, workerCheckStats = [], inflight = [], timers = 0,
      requests = [], posted = [], exited = None\<rparr>"

section \<open>Starting checks\<close>

text \<open>
  The statement sequence that hands the site at \<open>pointer\<close> to the add-on, which occurs twice in the
  source; both places have checked that the site is there.
\<close>

definition start_check :: "worker \<Rightarrow> worker" where
  "start_check w = w\<lparr>activeChecks := activeChecks w + 1, totalChecks := totalChecks w + 1,
     requests := requests w @ [(monitor_url (arrCheck w ! pointer w), DEFAULT_HTTP_PORT, pointer w)],
     inflight := inflight w @ [pointer w], pointer := Suc (pointer w)\<rparr>"

lemma start_check_frame [simp]:
  "pointer (start_check w) = Suc (pointer w)" "arrCheck (start_check w) = arrCheck w"
  "inflight (start_check w) = inflight w @ [pointer w]" "running (start_check w) = running w"
  "activeChecks (start_check w) = activeChecks w + 1" "timers (start_check w) = timers w"
  "exited (start_check w) = exited w" "cfg (start_check w) = cfg w" "posted (start_check w) = posted w"
  "availableForWork (start_check w) = availableForWork w"
  "askedForWork (start_check w) = askedForWork w"
  "requests (start_check w) =
     requests w @ [(monitor_url (arrCheck w ! pointer w), DEFAULT_HTTP_PORT, pointer w)]"
  by (simp_all add: start_check_def)

function check_loop :: "nat \<Rightarrow> worker \<Rightarrow> worker" where
  "check_loop m w = (if pointer w < m then check_loop m (start_check w) else w)"
  by pat_completeness auto
termination
  by (relation "measure (\<lambda>(m, w). m - pointer w)") auto

declare check_loop.simps [simp del]

definition checkServers :: "worker \<Rightarrow> worker" where
  "checkServers w =
     (let m = int (pointer w) + NUM_TO_PROCESS (cfg w);
          m' = (if m > int (length (arrCheck w)) then int (length (arrCheck w)) else m)
      in check_loop (nat m') w)"

section \<open>Reports to the master\<close>

definition sendStats :: "worker \<Rightarrow> worker" where
  "sendStats w =
     (let t = workerTotals w;
          w1 = (if total_down t \<noteq> 0 \<or> total_running t \<noteq> 0 \<or> total_confirmed t \<noteq> 0
                then post (Totals t) w else w)
      in w1\<lparr>workerTotals := zero_totals\<rparr>)"

definition getAge :: "int \<Rightarrow> worker \<Rightarrow> int" where
  "getAge now w = now - createdTime w"

definition stats_tick :: "int \<Rightarrow> int \<Rightarrow> worker \<Rightarrow> worker" where
  "stats_tick now rss w =
     (post (Stats (pid w)
        \<lparr>queueLength = length (arrCheck w), report_pointer = pointer w,
         report_activeChecks = activeChecks w, report_totalChecks = totalChecks w,
         memoryUsage = rss, uptime = getAge now w\<rparr> (workerCheckStats w)) w)
     \<lparr>workerCheckStats := []\<rparr>"

definition ask_timer :: "bool \<Rightarrow> worker \<Rightarrow> worker" where
  "ask_timer connected w =
     (let w1 = w\<lparr>askedForWork := True\<rparr>
      in if connected then post (Send_work (pid w1)) w1 else w1)"

section \<open>The result of a check\<close>

text \<open>The site's new status, from the answer and from the status it had when it was queued.\<close>

definition judge :: "config \<Rightarrow> int \<Rightarrow> int \<Rightarrow> nat \<Rightarrow> site \<Rightarrow> int" where
  "judge c now rtt code sv =
     (if rtt > 0 \<and> 400 > code \<and> 0 \<noteq> code then SITE_RUNNING
      else if SITE_RUNNING = oldStatus sv \<or>
              (SITE_CONFIRMED_DOWN \<noteq> oldStatus sv \<and>
               now < last_status_change sv + TIME_BETWEEN_NOTICES_MIN c * MINUTES)
           then SITE_DOWN
      else SITE_CONFIRMED_DOWN)"

definition local_check :: "string \<Rightarrow> int \<Rightarrow> nat \<Rightarrow> nat \<Rightarrow> int \<Rightarrow> check" where
  "local_check h rtt code err st =
     \<lparr>check_type = JETMON_CHECK, check_host = h, check_status = Whole st,
      check_rtt = Whole (round_div rtt 1000), check_code = Whole (int code), check_error_code = Whole (int err)\<rparr>"

definition judged :: "worker \<Rightarrow> int \<Rightarrow> int \<Rightarrow> nat \<Rightarrow> nat \<Rightarrow> site \<Rightarrow> site" where
  "judged w now rtt code err sv =
     (let sv = sv\<lparr>processed := True, lastCheck := Some now\<rparr>;
          sv = sv\<lparr>site_status := judge (cfg w) now rtt code sv\<rparr>
      in if site_status sv \<noteq> oldStatus sv
         then sv\<lparr>checks := checks sv @ [local_check (hostname w) rtt code err (site_status sv)]\<rparr>
         else sv)"

definition report_change :: "site \<Rightarrow> worker \<Rightarrow> worker" where
  "report_change sv w =
     (if site_status sv \<noteq> oldStatus sv then
        if site_status sv = SITE_DOWN then post (Recheck sv) w
        else if SITE_CONFIRMED_DOWN \<noteq> site_status sv then post (Notify_status_change sv) w
        else post (Notify_still_down sv) w
      else w)"

definition exit_code :: "worker \<Rightarrow> int" where
  "exit_code w =
     (if suicideSignal w then SUICIDE_SIGNAL
      else if totalChecks w > maxChecks w then EXIT_MAXCHECKS
      else EXIT_MAXRAMUSAGE)"

text \<open>
  The next check is started while there are sites; after the last one the worker stops taking
  work if it has reached a limit, ends the round (or its life) when nothing is outstanding, and
  asks for more work.
\<close>

definition waiting_for :: "worker \<Rightarrow> nat" where
  "waiting_for w = length (filter (\<lambda>s. \<not> processed s) (arrCheck w))"

definition retire :: "int \<Rightarrow> worker \<Rightarrow> worker" where
  "retire rss w =
     (if availableForWork w \<and>
         (suicideSignal w \<or> rss > maxMemUsage w \<or> totalChecks w > maxChecks w)
      then post (Stop_work (pid w)) (w\<lparr>availableForWork := False\<rparr>) else w)"

definition ask_again :: "worker \<Rightarrow> worker" where
  "ask_again w =
     (if availableForWork w \<and> \<not> askedForWork w
      then post (Send_work (pid w)) (w\<lparr>askedForWork := True\<rparr>) else w)"

definition advance :: "int \<Rightarrow> worker \<Rightarrow> worker" where
  "advance rss w =
     (if pointer w < length (arrCheck w) then start_check w
      else
        let w1 = retire rss w
        in if waiting_for w1 = 0 then
             if \<not> availableForWork w1 then w1\<lparr>exited := Some (exit_code w1)\<rparr>
             else ask_again (w1\<lparr>arrCheck := [], running := False\<rparr>)
           else ask_again w1)"

definition stat_key_of :: "int \<Rightarrow> stat_key" where
  "stat_key_of st =
     (if st = SITE_RUNNING then Up else if st = SITE_DOWN then Down
      else if st = SITE_CONFIRMED_DOWN then Still_down else Unknown)"

text \<open>
  \<open>arrCheck[ serverArrayIndex ]\<close> is undefined out of range, and the assignment to its field throws.
  \<open>process.exit\<close> does not return, so nothing after it runs.
\<close>

datatype type_error = TypeError

definition processResultsCallback ::
  "nat \<Rightarrow> int \<Rightarrow> nat \<Rightarrow> nat \<Rightarrow> int \<Rightarrow> int \<Rightarrow> worker \<Rightarrow> type_error + worker" where
  "processResultsCallback idx rtt code err now rss w =
     (let w = w\<lparr>activeChecks := activeChecks w - 1\<rparr>
      in if idx < length (arrCheck w) then
           let sv = judged w now rtt code err (arrCheck w ! idx);
               w = report_change sv (w\<lparr>arrCheck := (arrCheck w)[idx := sv]\<rparr>);
               w = w\<lparr>workerTotals := count_status (site_status sv) (workerTotals w)\<rparr>;
               w = advance rss w
           in Inr (if exited w = None
                   then w\<lparr>workerCheckStats :=
                          record_check (stat_key_of (site_status sv)) rtt code err (workerCheckStats w)\<rparr>
                   else w)
         else Inl TypeError)"

section \<open>Messages from the master\<close>

definition addToQueue :: "site list \<Rightarrow> worker \<Rightarrow> worker" where
  "addToQueue arrData w =
     (if running w then w\<lparr>arrCheck := arrCheck w @ arrData\<rparr>
      else w\<lparr>arrCheck := arrData, pointer := 0, running := True, timers := Suc (timers w)\<rparr>)"

text \<open>
  \<open>fl\<close> is the configuration that \<open>config.load\<close> reads, \<open>None\<close> where it throws; the handler's
  \<open>try\<close> then keeps the worker as it is.
\<close>

fun on_message :: "config option \<Rightarrow> (int \<Rightarrow> int) \<Rightarrow> worker_request \<Rightarrow> worker \<Rightarrow> worker" where
  "on_message fl rnd (Queue_add payload) w = addToQueue payload (w\<lparr>askedForWork := False\<rparr>)"
| "on_message fl rnd Evaporate w =
     (if \<not> running w then w\<lparr>exited := Some SUICIDE_SIGNAL\<rparr> else w\<lparr>suicideSignal := True\<rparr>)"
| "on_message fl rnd Config_update w =
     (case fl of None \<Rightarrow> w | Some c \<Rightarrow> reloadConfig rnd (w\<lparr>cfg := c\<rparr>))"
| "on_message fl rnd (Other_request p) w = post (Unknown_request p) w"

end
