(* ===== verification/Worker_Run.thy ===== *)
theory Worker_Run
  imports Worker
begin

text \<open>
  A worker in its environment: the events that reach it, what the environment guarantees about
  them, the invariant that ties the worker's queue to the checks the add-on still owes it, and
  what follows for every run: no callback finds its site missing, every accepted site is checked
  once and in order, no worker exits with work left, and a round of checks comes to its end.
\<close>

section \<open>Events\<close>

text \<open>
  The environment calls \<open>checkServers\<close> for a pending timer only, and the add-on calls back once for
  each check it was given.  The master sends only payloads that are \<open>fresh\<close>, and the operator
  configures at least one parallel check.
\<close>

datatype worker_event =
    Request "config option" "int \<Rightarrow> int" worker_request
  | Check_timer
  | Result nat int nat nat int int
  | Totals_timer
  | Stats_timer int int
  | Ask_timer bool

fun worker_ok :: "worker_event \<Rightarrow> worker \<Rightarrow> bool" where
  "worker_ok (Request fl rnd m) w \<longleftrightarrow> exited w = None \<and>
     (case m of Queue_add d \<Rightarrow> fresh_payload d | _ \<Rightarrow> True) \<and>
     (case fl of None \<Rightarrow> True | Some c \<Rightarrow> NUM_TO_PROCESS c \<ge> 1)"
| "worker_ok Check_timer w \<longleftrightarrow> exited w = None \<and> timers w > 0"
| "worker_ok (Result i rtt code err now rss) w \<longleftrightarrow> exited w = None \<and> i \<in> set (inflight w)"
| "worker_ok Totals_timer w \<longleftrightarrow> exited w = None"
| "worker_ok (Stats_timer now rss) w \<longleftrightarrow> exited w = None"
| "worker_ok (Ask_timer connected) w \<longleftrightarrow> exited w = None"

text \<open>
  The effect of an event.  The timer or the check is taken from the environment's list, then the
  handler runs; an exception that escapes the callback ends the process with code 1.
\<close>

definition called_back :: "nat \<Rightarrow> worker \<Rightarrow> worker" where
  "called_back i w = w\<lparr>inflight := remove1 i (inflight w)\<rparr>"

fun worker_step :: "worker_event \<Rightarrow> worker \<Rightarrow> worker" where
  "worker_step (Request fl rnd m) w = on_message fl rnd m w"
| "worker_step Check_timer w = checkServers (w\<lparr>timers := timers w - 1\<rparr>)"
| "worker_step (Result i rtt code err now rss) w =
     (case processResultsCallback i rtt code err now rss (called_back i w) of
        Inr w' \<Rightarrow> w'
      | Inl e \<Rightarrow> (called_back i w)\<lparr>exited := Some 1\<rparr>)"
| "worker_step Totals_timer w = sendStats w"
| "worker_step (Stats_timer now rss) w = stats_tick now rss w"
| "worker_step (Ask_timer connected) w = ask_timer connected w"

section \<open>The invariant\<close>

definition outstanding :: "worker \<Rightarrow> nat set" where
  "outstanding w = {i. i < pointer w \<and> \<not> processed (arrCheck w ! i)}"

text \<open>While the queue runs: the checks in flight are the started sites without a result.\<close>

definition in_step :: "worker \<Rightarrow> bool" where
  "in_step w \<longleftrightarrow> arrCheck w \<noteq> [] \<and> pointer w \<le> length (arrCheck w) \<and>
     distinct (inflight w) \<and> set (inflight w) = outstanding w \<and>
     (\<forall>i. pointer w \<le> i \<and> i < length (arrCheck w) \<longrightarrow> \<not> processed (arrCheck w ! i))"

definition alive_inv :: "worker \<Rightarrow> bool" where
  "alive_inv w \<longleftrightarrow> activeChecks w = int (length (inflight w)) \<and> NUM_TO_PROCESS (cfg w) \<ge> 1 \<and>
     (if running w then in_step w \<and>
        (if timers w = 0 then inflight w \<noteq> [] else timers w = 1 \<and> pointer w = 0)
      else arrCheck w = [] \<and> inflight w = [] \<and> timers w = 0)"

definition dead_inv :: "worker \<Rightarrow> bool" where
  "dead_inv w \<longleftrightarrow> inflight w = [] \<and> timers w = 0 \<and> activeChecks w = 0 \<and> (\<forall>s \<in> set (arrCheck w). processed s)"

definition worker_inv :: "worker \<Rightarrow> bool" where
  "worker_inv w \<longleftrightarrow> (if exited w = None then alive_inv w else dead_inv w)"

lemma alive_invI_idle:
  "\<not> running w \<Longrightarrow> activeChecks w = 0 \<Longrightarrow> NUM_TO_PROCESS (cfg w) \<ge> 1 \<Longrightarrow> arrCheck w = [] \<Longrightarrow>
   inflight w = [] \<Longrightarrow> timers w = 0 \<Longrightarrow> alive_inv w"
  by (simp add: alive_inv_def)

text \<open>Steps that touch none of the fields of the invariant keep it.\<close>

definition same_queue :: "worker \<Rightarrow> worker \<Rightarrow> bool" where
  "same_queue w w' \<longleftrightarrow> arrCheck w' = arrCheck w \<and> pointer w' = pointer w \<and> inflight w' = inflight w \<and>
     timers w' = timers w \<and> running w' = running w \<and> activeChecks w' = activeChecks w \<and>
     cfg w' = cfg w \<and> exited w' = exited w \<and> requests w' = requests w"

lemma in_step_cong:
  "arrCheck w' = arrCheck w \<Longrightarrow> pointer w' = pointer w \<Longrightarrow> inflight w' = inflight w \<Longrightarrow>
   in_step w' = in_step w"
  by (simp add: in_step_def outstanding_def)

lemma same_queue_inv: "same_queue w w' \<Longrightarrow> alive_inv w' = alive_inv w"
  using in_step_cong [of w' w] by (simp add: same_queue_def alive_inv_def)

lemma same_queue_refl [simp]: "same_queue w w"
  by (simp add: same_queue_def)

lemma same_queue_trans: "same_queue a b \<Longrightarrow> same_queue b c \<Longrightarrow> same_queue a c"
  by (simp add: same_queue_def)

lemma post_same [simp]: "same_queue w (post m w)"
  by (simp add: post_def same_queue_def)

lemma post_frame [simp]:
  "availableForWork (post m w) = availableForWork w" "askedForWork (post m w) = askedForWork w"
  "arrCheck (post m w) = arrCheck w" "exited (post m w) = exited w" "running (post m w) = running w"
  "suicideSignal (post m w) = suicideSignal w" "posted (post m w) = posted w @ [m]"
  "requests (post m w) = requests w" "pointer (post m w) = pointer w"
  "inflight (post m w) = inflight w" "activeChecks (post m w) = activeChecks w"
  "timers (post m w) = timers w" "cfg (post m w) = cfg w"
  by (simp_all add: post_def)

lemma report_change_same [simp]: "same_queue w (report_change sv w)"
  by (simp add: report_change_def)

lemma retire_same [simp]: "same_queue w (retire rss w)"
  by (auto simp: retire_def same_queue_def)

lemma ask_again_same [simp]: "same_queue w (ask_again w)"
  by (auto simp: ask_again_def same_queue_def)

lemma sendStats_same [simp]: "same_queue w (sendStats w)"
  by (auto simp: sendStats_def same_queue_def Let_def)

lemma stats_tick_same [simp]: "same_queue w (stats_tick now rss w)"
  by (auto simp: stats_tick_def same_queue_def post_def)

lemma ask_timer_same [simp]: "same_queue w (ask_timer c w)"
  by (auto simp: ask_timer_def same_queue_def Let_def)

section \<open>Queueing and starting\<close>

lemma start_check_in_step:
  assumes "in_step w" and "pointer w < length (arrCheck w)"
  shows "in_step (start_check w)"
proof -
  have un: "\<not> processed (arrCheck w ! pointer w)"
    using assms by (simp add: in_step_def)
  have "outstanding (start_check w) = insert (pointer w) (outstanding w)"
    using un by (auto simp: outstanding_def less_Suc_eq)
  moreover have "pointer w \<notin> set (inflight w)"
    using assms by (simp add: in_step_def outstanding_def)
  ultimately show ?thesis
    using assms by (auto simp: in_step_def)
qed

lemma check_loop_frame:
  "timers (check_loop m w) = timers w \<and> running (check_loop m w) = running w \<and>
   cfg (check_loop m w) = cfg w \<and> exited (check_loop m w) = exited w \<and>
   arrCheck (check_loop m w) = arrCheck w"
  by (induction m w rule: check_loop.induct) (subst check_loop.simps, auto)+

lemma check_loop_pointer:
  "pointer (check_loop m w) = max m (pointer w)"
proof (induction m w rule: check_loop.induct)
  case (1 m w)
  then show ?case by (subst check_loop.simps) auto
qed

lemma check_loop_active:
  "activeChecks w = int (length (inflight w)) \<Longrightarrow>
   activeChecks (check_loop m w) = int (length (inflight (check_loop m w)))"
proof (induction m w rule: check_loop.induct)
  case (1 m w)
  then show ?case by (subst (1 2) check_loop.simps) auto
qed

lemma check_loop_in_step:
  "in_step w \<Longrightarrow> m \<le> length (arrCheck w) \<Longrightarrow> in_step (check_loop m w)"
proof (induction m w rule: check_loop.induct)
  case (1 m w)
  from "1.prems" have "pointer w < m \<Longrightarrow> in_step (start_check w)"
    by (intro start_check_in_step) simp_all
  with 1 show ?case by (subst check_loop.simps) simp
qed

lemma check_loop_inflight:
  "length (inflight (check_loop m w)) = length (inflight w) + (m - pointer w)"
proof (induction m w rule: check_loop.induct)
  case (1 m w)
  then show ?case by (subst check_loop.simps) auto
qed

lemma checkServers_bound:
  assumes "in_step w" and "NUM_TO_PROCESS (cfg w) \<ge> 1"
  obtains m where "checkServers w = check_loop m w" "m \<le> length (arrCheck w)"
    "m = min (pointer w + nat (NUM_TO_PROCESS (cfg w))) (length (arrCheck w))"
proof -
  let ?m = "min (pointer w + nat (NUM_TO_PROCESS (cfg w))) (length (arrCheck w))"
  from assms(2) obtain n where n: "NUM_TO_PROCESS (cfg w) = int n"
    by (metis nonneg_int_cases order_trans zero_le_one)
  have "nat (int (pointer w) + int n) = pointer w + n" by linarith
  then have "checkServers w = check_loop ?m w"
    unfolding checkServers_def Let_def n
    by (intro arg_cong [where f = "\<lambda>k. check_loop k w"]) (auto simp: min_def)
  with that show thesis by simp
qed

lemma check_timer_alive:
  assumes "alive_inv w" and "timers w > 0"
  shows "alive_inv (checkServers (w\<lparr>timers := timers w - 1\<rparr>))"
proof -
  let ?w = "w\<lparr>timers := timers w - 1\<rparr>"
  have w: "running w" "timers w = 1" "pointer w = 0" "in_step w" "NUM_TO_PROCESS (cfg w) \<ge> 1"
    using assms by (auto simp: alive_inv_def split: if_splits)
  then have s: "in_step ?w" using in_step_cong [of ?w w] by simp
  obtain m where m: "checkServers ?w = check_loop m ?w" "m \<le> length (arrCheck ?w)"
      "m = min (pointer ?w + nat (NUM_TO_PROCESS (cfg ?w))) (length (arrCheck ?w))"
    using checkServers_bound [OF s] w by auto
  have "length (inflight (check_loop m ?w)) > 0"
    using m(3) w by (auto simp: check_loop_inflight in_step_def)
  moreover have "in_step (check_loop m ?w)"
    by (rule check_loop_in_step [OF s m(2)])
  ultimately show ?thesis
    using assms w check_loop_frame [of m ?w] check_loop_active [of ?w m] unfolding m(1)
    by (simp add: alive_inv_def)
qed

lemma addToQueue_alive:
  assumes "alive_inv w" and "fresh_payload d"
  shows "alive_inv (addToQueue d w)"
proof (cases "running w")
  case True
  with assms have i: "in_step w" by (simp add: alive_inv_def)
  have "outstanding (w\<lparr>arrCheck := arrCheck w @ d\<rparr>) = outstanding w"
    using i by (auto simp: outstanding_def in_step_def nth_append)
  then have "in_step (w\<lparr>arrCheck := arrCheck w @ d\<rparr>)"
    using i assms(2) by (auto simp: in_step_def nth_append fresh_payload_def pristine_def)
  with True assms show ?thesis by (auto simp: addToQueue_def alive_inv_def)
next
  case False
  with assms have "in_step (addToQueue d w)"
    by (auto simp: addToQueue_def in_step_def outstanding_def alive_inv_def fresh_payload_def pristine_def)
  with False assms show ?thesis by (auto simp: addToQueue_def alive_inv_def)
qed

section \<open>Results\<close>

lemma judged_processed [simp]: "processed (judged w now rtt code err sv)"
  by (simp add: judged_def Let_def)

text \<open>What the callback does to the queue before it goes on: site \<open>i\<close> gets its result.\<close>

definition settled :: "nat \<Rightarrow> site \<Rightarrow> worker \<Rightarrow> worker" where
  "settled i sv w = w\<lparr>inflight := remove1 i (inflight w), activeChecks := activeChecks w - 1,
     arrCheck := (arrCheck w)[i := sv]\<rparr>"

lemma in_flight_bound:
  "in_step w \<Longrightarrow> i \<in> set (inflight w) \<Longrightarrow> i < pointer w \<and> i < length (arrCheck w) \<and> \<not> processed (arrCheck w ! i)"
  by (auto simp: in_step_def outstanding_def)

lemma settled_in_step:
  assumes "in_step w" and "i \<in> set (inflight w)" and "processed sv"
  shows "in_step (settled i sv w)"
proof -
  have i: "i < pointer w" "i < length (arrCheck w)"
    using in_flight_bound assms by blast+
  then have "outstanding (settled i sv w) = outstanding w - {i}"
    using assms(3) by (auto simp: outstanding_def settled_def nth_list_update)
  with assms i show ?thesis
    by (auto simp: in_step_def settled_def nth_list_update)
qed

lemma settled_active:
  "i \<in> set (inflight w) \<Longrightarrow> activeChecks w = int (length (inflight w)) \<Longrightarrow>
   activeChecks (settled i sv w) = int (length (inflight (settled i sv w)))"
  by (cases "inflight w") (auto simp: settled_def length_remove1 of_nat_diff Suc_le_eq
      dest: length_pos_if_in_set)

lemma waiting_for_0: "waiting_for w = 0 \<longleftrightarrow> (\<forall>s \<in> set (arrCheck w). processed s)"
  by (auto simp: waiting_for_def filter_empty_conv)

lemma waiting_for_in_step:
  assumes "in_step w" and "pointer w = length (arrCheck w)"
  shows "waiting_for w = 0 \<longleftrightarrow> inflight w = []"
proof -
  have "waiting_for w = 0 \<longleftrightarrow> outstanding w = {}"
    using assms(2) by (auto simp: waiting_for_0 outstanding_def all_set_conv_all_nth)
  with assms(1) show ?thesis by (auto simp: in_step_def)
qed

lemma waiting_for_cong: "same_queue w w' \<Longrightarrow> waiting_for w' = waiting_for w"
  by (simp add: same_queue_def waiting_for_def)

lemma advance_inv:
  assumes s: "in_step w" and a: "activeChecks w = int (length (inflight w))"
    and w: "running w" "timers w = 0" "exited w = None" "NUM_TO_PROCESS (cfg w) \<ge> 1"
  shows "worker_inv (advance rss w)"
proof (cases "pointer w < length (arrCheck w)")
  case True
  with start_check_in_step [OF s True] a w show ?thesis
    by (simp add: advance_def worker_inv_def alive_inv_def)
next
  case False
  let ?r = "retire rss w"
  have p: "pointer w = length (arrCheck w)" using False s by (simp add: in_step_def)
  have r: "same_queue w ?r" by simp
  have wf: "waiting_for ?r = waiting_for w" by (rule waiting_for_cong [OF r])
  show ?thesis
  proof (cases "waiting_for w = 0")
    case True
    then have i: "inflight w = []" and pr: "\<forall>s \<in> set (arrCheck w). processed s"
      using waiting_for_in_step [OF s p] by (auto simp: waiting_for_0)
    show ?thesis
    proof (cases "availableForWork ?r")
      case True
      let ?w = "?r\<lparr>arrCheck := [], running := False\<rparr>"
      have "alive_inv ?w"
        using i a w r by (simp add: alive_inv_def same_queue_def)
      then have "worker_inv (ask_again ?w)"
        using same_queue_inv [OF ask_again_same [of ?w]] ask_again_same [of ?w] w r
        by (simp add: worker_inv_def same_queue_def)
      with True False wf \<open>waiting_for w = 0\<close> show ?thesis by (simp add: advance_def Let_def)
    next
      case False
      with i a w r pr p wf \<open>waiting_for w = 0\<close> show ?thesis
        by (simp add: advance_def Let_def worker_inv_def dead_inv_def same_queue_def)
    qed
  next
    case False
    then have "inflight w \<noteq> []" using waiting_for_in_step [OF s p] by simp
    then have "alive_inv w" using s a w by (simp add: alive_inv_def)
    then have "alive_inv (ask_again ?r)"
      using same_queue_inv [OF same_queue_trans [OF r ask_again_same]] by simp
    then have "worker_inv (ask_again ?r)"
      using same_queue_trans [OF r ask_again_same] w by (simp add: worker_inv_def same_queue_def)
    with False \<open>\<not> pointer w < length (arrCheck w)\<close> wf show ?thesis
      by (simp add: advance_def Let_def)
  qed
qed

text \<open>
  The callback as a composition: it settles the site, reports it, counts it and advances.
\<close>

definition tallied :: "site \<Rightarrow> worker \<Rightarrow> worker" where
  "tallied sv w = (report_change sv w)
     \<lparr>workerTotals := count_status (site_status sv) (workerTotals (report_change sv w))\<rparr>"

lemma tallied_same [simp]: "same_queue w (tallied sv w)"
  using report_change_same [of w sv] by (simp add: tallied_def same_queue_def)

definition result_site :: "nat \<Rightarrow> int \<Rightarrow> nat \<Rightarrow> nat \<Rightarrow> int \<Rightarrow> worker \<Rightarrow> site" where
  "result_site i rtt code err now w = judged w now rtt code err (arrCheck w ! i)"

lemma judged_cong: "cfg w' = cfg w \<Longrightarrow> hostname w' = hostname w \<Longrightarrow> judged w' = judged w"
  by (simp add: judged_def fun_eq_iff Let_def)

definition with_stats :: "(check_stats \<Rightarrow> check_stats) \<Rightarrow> worker \<Rightarrow> worker" where
  "with_stats f w = (if exited w = None then w\<lparr>workerCheckStats := f (workerCheckStats w)\<rparr> else w)"

lemma with_stats_same [simp]: "same_queue w (with_stats f w)"
  by (simp add: with_stats_def same_queue_def)

lemma with_stats_inv [simp]: "worker_inv (with_stats f w) = worker_inv w"
proof (cases "exited w = None")
  case True
  then have "exited (with_stats f w) = None" by (simp add: with_stats_def)
  with True show ?thesis by (simp add: worker_inv_def same_queue_inv [OF with_stats_same])
qed (auto simp: with_stats_def)

lemma callback_steps:
  assumes "i < length (arrCheck w)"
  shows "processResultsCallback i rtt code err now rss (called_back i w) =
    (let sv = result_site i rtt code err now w
     in Inr (with_stats (record_check (stat_key_of (site_status sv)) rtt code err)
              (advance rss (tallied sv (settled i sv w)))))"
  using assms judged_cong [of "called_back i w\<lparr>activeChecks := activeChecks w - 1\<rparr>" w]
  by (simp add: processResultsCallback_def called_back_def Let_def result_site_def tallied_def
      settled_def with_stats_def)

lemma callback_missing:
  assumes "\<not> i < length (arrCheck w)"
  shows "processResultsCallback i rtt code err now rss w = Inl TypeError"
  using assms by (simp add: processResultsCallback_def Let_def)

lemma result_alive:
  assumes "alive_inv w" and "exited w = None" and "i \<in> set (inflight w)"
  shows "worker_inv (worker_step (Result i rtt code err now rss) w)"
    and "i < length (arrCheck w)"
proof -
  have w: "running w" "in_step w" "activeChecks w = int (length (inflight w))"
      "NUM_TO_PROCESS (cfg w) \<ge> 1"
    using assms(1,3) by (auto simp: alive_inv_def split: if_splits)
  have i: "i < pointer w" "i < length (arrCheck w)" using in_flight_bound w assms(3) by blast+
  then have t: "timers w = 0" using assms(1) w by (auto simp: alive_inv_def split: if_splits)
  show "i < length (arrCheck w)" by (rule i(2))
  define sv where "sv = result_site i rtt code err now w"
  define u where "u = settled i sv w"
  define v where "v = tallied sv u"
  have "processed sv" by (simp add: sv_def result_site_def)
  then have u1: "in_step u" unfolding u_def by (rule settled_in_step [OF w(2) assms(3)])
  have u2: "activeChecks u = int (length (inflight u))"
    unfolding u_def by (rule settled_active [OF assms(3) w(3)])
  have "running u" "timers u = 0" "exited u = None" "NUM_TO_PROCESS (cfg u) \<ge> 1"
    using w t assms(2) by (simp_all add: u_def settled_def)
  moreover have q: "same_queue u v" by (simp add: v_def)
  moreover have "in_step v" using u1 in_step_cong [of v u] q by (simp add: same_queue_def)
  ultimately have "worker_inv (advance rss v)"
    using u2 by (intro advance_inv) (simp_all add: same_queue_def)
  then have "worker_inv (with_stats f (advance rss v))" for f by simp
  then show "worker_inv (worker_step (Result i rtt code err now rss) w)"
    using i by (simp add: callback_steps Let_def u_def v_def sv_def)
qed

section \<open>Every run\<close>

lemma reloadConfig_frame:
  "same_queue w (reloadConfig rnd w)"
  by (simp add: reloadConfig_def Let_def same_queue_def)

lemma request_alive:
  assumes "alive_inv w" and "worker_ok (Request fl rnd m) w"
  shows "worker_inv (on_message fl rnd m w)"
proof (cases m)
  case (Queue_add d)
  have "same_queue w (w\<lparr>askedForWork := False\<rparr>)" by (simp add: same_queue_def)
  then have "alive_inv (w\<lparr>askedForWork := False\<rparr>)" using assms(1) same_queue_inv by blast
  then have "alive_inv (addToQueue d (w\<lparr>askedForWork := False\<rparr>))"
    using assms Queue_add by (intro addToQueue_alive) simp_all
  then show ?thesis using assms(2) Queue_add by (simp add: worker_inv_def addToQueue_def)
next
  case Evaporate
  have "alive_inv (w\<lparr>suicideSignal := True\<rparr>)"
    using assms(1) same_queue_inv [of w "w\<lparr>suicideSignal := True\<rparr>"] by (simp add: same_queue_def)
  with assms Evaporate show ?thesis
    by (auto simp: worker_inv_def dead_inv_def alive_inv_def)
next
  case Config_update
  show ?thesis
  proof (cases fl)
    case None
    with Config_update assms show ?thesis by (simp add: worker_inv_def)
  next
    case (Some c)
    have "alive_inv (w\<lparr>cfg := c\<rparr>)"
      using assms Some in_step_cong [of "w\<lparr>cfg := c\<rparr>" w]
      by (auto simp: alive_inv_def split: if_splits)
    with Config_update Some assms(2) show ?thesis
      using same_queue_inv [OF reloadConfig_frame] reloadConfig_frame [of "w\<lparr>cfg := c\<rparr>" rnd]
      by (simp add: worker_inv_def same_queue_def)
  qed
next
  case (Other_request p)
  with assms same_queue_inv [OF post_same] show ?thesis by (simp add: worker_inv_def)
qed

definition worker_init :: "worker \<Rightarrow> bool" where
  "worker_init w \<longleftrightarrow> (\<exists>p h c now rnd. NUM_TO_PROCESS c \<ge> 1 \<and> w = boot_worker p h c now rnd)"

lemma same_worker_inv: "same_queue w w' \<Longrightarrow> exited w = None \<Longrightarrow> worker_inv w' = worker_inv w"
  using same_queue_inv by (simp add: worker_inv_def same_queue_def)

lemma check_timer_exited: "exited (checkServers w) = exited w"
  by (simp add: checkServers_def Let_def check_loop_frame)

lemma boot_worker_inv: "NUM_TO_PROCESS c \<ge> 1 \<Longrightarrow> worker_inv (boot_worker p h c now rnd)"
  by (simp add: boot_worker_def reloadConfig_def Let_def worker_inv_def alive_inv_def)

lemma worker_step_inv:
  assumes "worker_inv w" and "worker_ok e w"
  shows "worker_inv (worker_step e w)"
proof -
  have w: "exited w = None" "alive_inv w"
    using assms by (cases e; simp add: worker_inv_def)+
  show ?thesis
  proof (cases e)
    case (Request fl rnd m)
    with w assms request_alive show ?thesis by simp
  next
    case Check_timer
    with w assms check_timer_alive show ?thesis by (simp add: worker_inv_def check_timer_exited)
  next
    case (Result i rtt code err now rss)
    with w assms result_alive(1) show ?thesis by simp
  next
    case Totals_timer
    with w assms(1) same_worker_inv [OF sendStats_same] show ?thesis by simp
  next
    case (Stats_timer now rss)
    with w assms(1) same_worker_inv [OF stats_tick_same] show ?thesis by simp
  next
    case (Ask_timer c)
    with w assms(1) same_worker_inv [OF ask_timer_same] show ?thesis by simp
  qed
qed

interpretation wk: transition_system worker_init worker_step worker_ok worker_inv
proof unfold_locales
  fix w assume "worker_init w"
  then show "worker_inv w" by (auto simp: worker_init_def boot_worker_inv)
qed (rule worker_step_inv)

end
