(* ===== verification/Worker_Properties.thy ===== *)
theory Worker_Properties
  imports Worker_Run
begin

text \<open>
  The properties of a worker process, over every state its environment can bring it to.
\<close>

section \<open>Reachable states\<close>

inductive worker_reachable :: "worker \<Rightarrow> bool" where
  boot: "NUM_TO_PROCESS c \<ge> 1 \<Longrightarrow> worker_reachable (boot_worker p h c now rnd)"
| event: "worker_reachable w \<Longrightarrow> worker_ok e w \<Longrightarrow> worker_reachable (worker_step e w)"

lemma reachable_inv: "worker_reachable w \<Longrightarrow> worker_inv w"
  by (induction rule: worker_reachable.induct) (auto intro: boot_worker_inv worker_step_inv)

lemma reachable_alive: "worker_reachable w \<Longrightarrow> exited w = None \<Longrightarrow> alive_inv w"
  using reachable_inv by (auto simp: worker_inv_def)

lemma reachable_run: "worker_reachable w \<Longrightarrow> wk.admissible es w \<Longrightarrow> worker_reachable (fold worker_step es w)"
  by (induction es arbitrary: w) (auto intro: event)

text \<open>A run used as the example of the hypotheses: two sites, one check at a time.\<close>

definition demo_site :: "nat \<Rightarrow> int \<Rightarrow> site" where
  "demo_site n st = \<lparr>blog_id = n, monitor_url = ''u'', lastCheck = None, last_status_change = 0,
     checks = [], site_status = st, oldStatus = st, processed = False\<rparr>"

definition demo_config :: config where
  "demo_config = sample_config\<lparr>NUM_TO_PROCESS := 1\<rparr>"

definition demo_boot :: worker where
  "demo_boot = boot_worker 7 ''host'' demo_config 0 (\<lambda>m. 0)"

definition demo_events :: "worker_event list" where
  "demo_events = [Request None (\<lambda>m. 0) (Queue_add [demo_site 1 1, demo_site 2 1]), Check_timer]"

definition demo_worker :: worker where
  "demo_worker = fold worker_step demo_events demo_boot"

lemma demo_boot_reachable: "worker_reachable demo_boot"
  unfolding demo_boot_def by (rule boot) (simp add: demo_config_def sample_config_def)

lemma demo_admissible: "wk.admissible demo_events demo_boot"
  by (simp add: demo_events_def demo_boot_def boot_worker_def reloadConfig_def Let_def addToQueue_def
      fresh_payload_def pristine_def by_workers_def demo_site_def)

lemma demo_reachable: "worker_reachable demo_worker"
  unfolding demo_worker_def by (rule reachable_run [OF demo_boot_reachable demo_admissible])

lemma demo_alive: "exited demo_worker = None"
  by code_simp

lemma demo_inflight: "inflight demo_worker = [0]"
  by code_simp

section \<open>Results\<close>

lemma pid_frame [simp]:
  "pid (retire rss w) = pid w" "pid (report_change sv w) = pid w" "pid (tallied sv w) = pid w"
  "pid (settled i sv w) = pid w"
  by (auto simp: retire_def report_change_def post_def tallied_def settled_def)

lemma posted_advance:
  "\<exists>ms. posted (advance rss w) = posted w @ ms \<and> set ms \<subseteq> {Stop_work (pid w), Send_work (pid w)}"
  by (auto simp: advance_def Let_def ask_again_def retire_def)

definition reports :: "site \<Rightarrow> worker_msg list" where
  "reports sv =
     (if site_status sv = oldStatus sv then []
      else if site_status sv = SITE_DOWN then [Recheck sv]
      else if site_status sv = SITE_RUNNING then [Notify_status_change sv]
      else [Notify_still_down sv])"

lemma judge_range:
  "judge c now rtt code sv \<in> {SITE_DOWN, SITE_RUNNING, SITE_CONFIRMED_DOWN}"
  by (simp add: judge_def)

lemma judged_simps [simp]:
  "site_status (judged w now rtt code err sv) = judge (cfg w) now rtt code sv"
  "oldStatus (judged w now rtt code err sv) = oldStatus sv"
  "blog_id (judged w now rtt code err sv) = blog_id sv"
  "monitor_url (judged w now rtt code err sv) = monitor_url sv"
  by (simp_all add: judged_def Let_def judge_def)

lemma checks_judged:
  "checks (judged w now rtt code err sv) = checks sv @
     (if judge (cfg w) now rtt code sv = oldStatus sv then []
      else [local_check (hostname w) rtt code err (judge (cfg w) now rtt code sv)])"
  by (simp add: judged_def Let_def judge_def)

lemma posted_report_change:
  "site_status sv \<in> {SITE_DOWN, SITE_RUNNING, SITE_CONFIRMED_DOWN} \<Longrightarrow>
   posted (report_change sv w) = posted w @ reports sv"
  by (auto simp: report_change_def reports_def)

lemma with_stats_posted [simp]: "posted (with_stats f w) = posted w"
  by (simp add: with_stats_def)

lemma posted_callback:
  assumes "i < length (arrCheck w)"
  shows "\<exists>ms. posted (worker_step (Result i rtt code err now rss) w) =
      posted w @ reports (result_site i rtt code err now w) @ ms \<and>
      set ms \<subseteq> {Stop_work (pid w), Send_work (pid w)}"
proof -
  define sv where "sv = result_site i rtt code err now w"
  define v where "v = tallied sv (settled i sv w)"
  have "site_status sv \<in> {SITE_DOWN, SITE_RUNNING, SITE_CONFIRMED_DOWN}"
    using judge_range by (simp add: sv_def result_site_def)
  then have p: "posted v = posted w @ reports sv"
    using posted_report_change [of sv "settled i sv w"] by (simp add: v_def tallied_def settled_def)
  have "pid v = pid w" by (simp add: v_def)
  with p obtain ms where "posted (advance rss v) = posted w @ reports sv @ ms"
      "set ms \<subseteq> {Stop_work (pid w), Send_work (pid w)}"
    using posted_advance [of rss v] by auto
  with assms show ?thesis by (auto simp: callback_steps Let_def v_def sv_def)
qed

text \<open>
  The table of the README as a specification: what the worker reports for a site whose record was
  \<open>old\<close> when the check was made, with the updated record \<open>new\<close>.
\<close>

definition readme_table :: "config \<Rightarrow> int \<Rightarrow> int \<Rightarrow> nat \<Rightarrow> site \<Rightarrow> site \<Rightarrow> worker_msg list" where
  "readme_table c now rtt code old new =
     (let up = (0 < rtt \<and> 1 \<le> code \<and> code \<le> 399);
          noticed = (last_status_change old + TIME_BETWEEN_NOTICES_MIN c * MINUTES \<le> now)
      in if up then (if oldStatus old = SITE_RUNNING then [] else [Notify_status_change new])
         else if oldStatus old = SITE_RUNNING then [Recheck new]
         else if oldStatus old = SITE_CONFIRMED_DOWN then []
         else if noticed then [Notify_still_down new]
         else if oldStatus old = SITE_DOWN then [] else [Recheck new])"

lemma reports_table:
  assumes "new = judged w now rtt code err old"
  shows "reports new = readme_table (cfg w) now rtt code old new"
  using assms by (auto simp: reports_def readme_table_def Let_def judge_def)

text \<open>
  C7. The status table of the README, as the worker runs it: a callback for a site in flight is
  answered by the message its old status and the answer ask for, before anything about the
  worker itself.  An answer (a positive time and an HTTP code from 1 to 399) for a site that was
  not up is a status change; a failure of a site that was up is never reported as such but sent
  back for a recheck; a failure of a site that was down is reported as still down once the
  notice period is over and not before; anything else changes nothing and is not reported.
\<close>

theorem worker_reports_by_table:
  assumes "worker_reachable w" and "worker_ok (Result i rtt code err now rss) w"
  shows "\<exists>new ms. posted (worker_step (Result i rtt code err now rss) w) =
      posted w @ readme_table (cfg w) now rtt code (arrCheck w ! i) new @ ms \<and>
    blog_id new = blog_id (arrCheck w ! i) \<and> monitor_url new = monitor_url (arrCheck w ! i) \<and>
    site_status new = judge (cfg w) now rtt code (arrCheck w ! i) \<and>
    set ms \<subseteq> {Stop_work (pid w), Send_work (pid w)}"
proof -
  have i: "i < length (arrCheck w)"
    using assms result_alive(2) reachable_alive by auto
  define new where "new = result_site i rtt code err now w"
  have n: "new = judged w now rtt code err (arrCheck w ! i)"
    by (simp add: new_def result_site_def)
  from posted_callback [OF i, of rtt code err now rss] reports_table [OF n]
  obtain ms where "posted (worker_step (Result i rtt code err now rss) w) =
      posted w @ readme_table (cfg w) now rtt code (arrCheck w ! i) new @ ms"
      "set ms \<subseteq> {Stop_work (pid w), Send_work (pid w)}"
    by (auto simp: new_def)
  then show ?thesis by (intro exI [of _ new] exI [of _ ms]) (simp add: n)
qed

theorem worker_reports_by_table_witness:
  "\<exists>new ms. posted (worker_step (Result 0 5000 500 0 99 0) demo_worker) =
      posted demo_worker @ [Recheck new] @ ms \<and> blog_id new = 1"
proof -
  have s: "oldStatus (arrCheck demo_worker ! 0) = 1" "blog_id (arrCheck demo_worker ! 0) = 1"
    by code_simp+
  have "worker_ok (Result 0 5000 500 0 99 0) demo_worker"
    by (simp add: demo_inflight demo_alive)
  from worker_reports_by_table [OF demo_reachable this] s
  show ?thesis by (auto simp: readme_table_def const_defs)
qed

section \<open>No missing site, no lost site\<close>

text \<open>
  C24. In every reachable state a callback of the add-on finds its site: the handler never reads
  past the end of the queue, so no exception escapes it.
\<close>

theorem callback_finds_its_site:
  assumes "worker_reachable w" and "worker_ok (Result i rtt code err now rss) w"
  shows "\<exists>w'. processResultsCallback i rtt code err now rss (called_back i w) = Inr w'"
proof -
  have "i < length (arrCheck w)"
    using assms result_alive(2) reachable_alive by auto
  then show ?thesis by (simp add: callback_steps Let_def)
qed

theorem callback_finds_its_site_witness:
  "\<exists>w'. processResultsCallback 0 5000 200 0 99 0 (called_back 0 demo_worker) = Inr w'"
  by (rule callback_finds_its_site [OF demo_reachable]) (simp add: demo_alive demo_inflight)

text \<open>
  C23. A worker that has exited owes nothing: no check is in flight and every site of its queue has
  its result, whichever of the limits, the signal or the request to evaporate ended it.
\<close>

theorem exit_leaves_no_work:
  assumes "worker_reachable w" and "exited w \<noteq> None"
  shows "inflight w = [] \<and> timers w = 0 \<and> activeChecks w = 0 \<and> (\<forall>s \<in> set (arrCheck w). processed s)"
  using reachable_inv [OF assms(1)] assms(2) by (simp add: worker_inv_def dead_inv_def)

definition demo_exit :: worker where
  "demo_exit = fold worker_step
     [Request None (\<lambda>m. 0) Evaporate, Result 0 5000 200 0 99 0, Result 1 5000 200 0 99 0] demo_worker"

theorem exit_leaves_no_work_witness:
  "exited demo_exit = Some SUICIDE_SIGNAL \<and> inflight demo_exit = [] \<and> length (arrCheck demo_exit) = 2 \<and>
   processed (arrCheck demo_exit ! 1)"
proof -
  have adm: "wk.admissible
      [Request None (\<lambda>m. 0) Evaporate, Result 0 5000 200 0 99 0, Result 1 5000 200 0 99 0] demo_worker"
    by (simp only: wk.admissible.simps) code_simp
  have r: "worker_reachable demo_exit"
    unfolding demo_exit_def by (rule reachable_run [OF demo_reachable adm])
  have e: "exited demo_exit = Some SUICIDE_SIGNAL" "length (arrCheck demo_exit) = 2" by code_simp+
  with exit_leaves_no_work [OF r] show ?thesis by simp
qed

section \<open>Each site once, in order\<close>

fun accepted :: "worker_event \<Rightarrow> site list" where
  "accepted (Request fl rnd (Queue_add d)) = d"
| "accepted e = []"

text \<open>The addresses given to the add-on so far, followed by those still to be given.\<close>

definition started :: "worker \<Rightarrow> string list" where
  "started w = map fst (requests w)"

definition unstarted :: "worker \<Rightarrow> string list" where
  "unstarted w = map monitor_url (drop (pointer w) (arrCheck w))"

definition schedule :: "worker \<Rightarrow> string list" where
  "schedule w = started w @ unstarted w"

lemma schedule_same: "same_queue w w' \<Longrightarrow> schedule w' = schedule w"
  by (simp add: same_queue_def schedule_def started_def unstarted_def)

lemma schedule_start:
  "pointer w < length (arrCheck w) \<Longrightarrow> schedule (start_check w) = schedule w"
  by (simp add: schedule_def started_def unstarted_def Cons_nth_drop_Suc [symmetric])

lemma schedule_loop:
  "m \<le> length (arrCheck w) \<Longrightarrow> schedule (check_loop m w) = schedule w"
proof (induction m w rule: check_loop.induct)
  case (1 m w)
  then show ?case by (subst check_loop.simps) (simp add: schedule_start)
qed

lemma schedule_settled:
  "i < pointer w \<Longrightarrow> schedule (settled i sv w) = schedule w"
  by (simp add: schedule_def started_def unstarted_def settled_def drop_update_cancel)

lemma schedule_advance:
  assumes "pointer w \<le> length (arrCheck w)"
  shows "schedule (advance rss w) = schedule w"
proof (cases "pointer w < length (arrCheck w)")
  case True
  then show ?thesis by (simp add: advance_def schedule_start)
next
  case False
  define r where "r = retire rss w"
  have r: "same_queue w r" by (simp add: r_def)
  have reset: "schedule (r\<lparr>arrCheck := [], running := False\<rparr>) = schedule w"
    using False r by (simp add: schedule_def started_def unstarted_def same_queue_def)
  have exit: "schedule (r\<lparr>exited := x\<rparr>) = schedule w" for x
    using r by (simp add: schedule_def started_def unstarted_def same_queue_def)
  show ?thesis
    using False schedule_same [OF ask_again_same] schedule_same [OF r] reset exit
    by (simp add: advance_def Let_def flip: r_def)
qed

lemma schedule_result:
  assumes "alive_inv w" and "i \<in> set (inflight w)"
  shows "schedule (worker_step (Result i rtt code err now rss) w) = schedule w"
proof -
  have s: "in_step w" using assms by (auto simp: alive_inv_def split: if_splits)
  have i: "i < pointer w" "i < length (arrCheck w)" using in_flight_bound [OF s assms(2)] by simp_all
  define sv where "sv = result_site i rtt code err now w"
  define v where "v = tallied sv (settled i sv w)"
  have v: "same_queue (settled i sv w) v" by (simp add: v_def)
  have le: "pointer v \<le> length (arrCheck v)"
    using v s by (simp add: same_queue_def settled_def in_step_def)
  have "schedule (with_stats f (advance rss v)) = schedule w" for f
    using schedule_same [OF with_stats_same] schedule_advance [OF le] schedule_same [OF v]
      schedule_settled [OF i(1)] by simp
  then show ?thesis using i by (simp add: callback_steps Let_def v_def sv_def)
qed

lemma schedule_request:
  assumes "alive_inv w"
  shows "schedule (on_message fl rnd m w) = schedule w @ map monitor_url (accepted (Request fl rnd m))"
proof (cases m)
  case (Queue_add d)
  have "schedule (w\<lparr>askedForWork := False\<rparr>) = schedule w"
    by (rule schedule_same) (simp add: same_queue_def)
  then show ?thesis using assms Queue_add
    by (auto simp: addToQueue_def schedule_def started_def unstarted_def alive_inv_def in_step_def
        split: if_splits)
next
  case Config_update
  have "schedule (w\<lparr>cfg := c\<rparr>) = schedule w" for c
    by (simp add: schedule_def started_def unstarted_def)
  then show ?thesis using Config_update schedule_same [OF reloadConfig_frame]
    by (simp split: option.split)
qed (auto simp: schedule_def started_def unstarted_def)

lemma schedule_step:
  assumes "worker_inv w" and "worker_ok e w"
  shows "schedule (worker_step e w) = schedule w @ map monitor_url (accepted e)"
proof -
  have w: "alive_inv w"
    using assms by (cases e) (auto simp: worker_inv_def)
  show ?thesis
  proof (cases e)
    case (Request fl rnd m)
    with schedule_request [OF w] show ?thesis by simp
  next
    case Check_timer
    let ?w = "w\<lparr>timers := timers w - 1\<rparr>"
    have "in_step w" "NUM_TO_PROCESS (cfg w) \<ge> 1"
      using w assms(2) Check_timer by (auto simp: alive_inv_def split: if_splits)
    then have "in_step ?w" "NUM_TO_PROCESS (cfg ?w) \<ge> 1"
      using in_step_cong [of ?w w] by simp_all
    then obtain m where m: "checkServers ?w = check_loop m ?w" "m \<le> length (arrCheck ?w)"
      by (rule checkServers_bound)
    have "schedule ?w = schedule w" by (simp add: schedule_def started_def unstarted_def)
    with schedule_loop [OF m(2)] m(1) Check_timer show ?thesis by simp
  next
    case (Result i rtt code err now rss)
    with w assms(2) schedule_result show ?thesis by simp
  next
    case Totals_timer
    with schedule_same [OF sendStats_same] show ?thesis by simp
  next
    case (Stats_timer now rss)
    with schedule_same [OF stats_tick_same] show ?thesis by simp
  next
    case (Ask_timer c)
    with schedule_same [OF ask_timer_same] show ?thesis by simp
  qed
qed

lemma schedule_run:
  "worker_inv w \<Longrightarrow> wk.admissible es w \<Longrightarrow>
   schedule (fold worker_step es w) = schedule w @ map monitor_url (concat (map accepted es))"
proof (induction es arbitrary: w)
  case (Cons e es)
  from Cons.prems have "worker_inv (worker_step e w)" by (auto intro: worker_step_inv)
  with Cons schedule_step [of w e] show ?case by simp
qed simp

lemma boot_schedule: "schedule (boot_worker p h c now rnd) = []"
  by (simp add: boot_worker_def reloadConfig_def Let_def schedule_def started_def unstarted_def)

text \<open>
  C13. Every accepted site is handed to the add-on exactly once and in the order of acceptance: after
  any run of a worker from its start, the addresses requested so far followed by the addresses
  still queued are the addresses of all sites accepted.  Payloads that arrive while a queue is
  being worked off, results in any order and limits reached in between change nothing of that.
\<close>

theorem every_site_checked_once:
  assumes "NUM_TO_PROCESS c \<ge> 1" and "wk.admissible es (boot_worker p h c now rnd)"
  defines "w \<equiv> fold worker_step es (boot_worker p h c now rnd)"
  shows "map fst (requests w) @ map monitor_url (drop (pointer w) (arrCheck w)) =
     map monitor_url (concat (map accepted es))"
  using schedule_run [OF boot_worker_inv [OF assms(1)] assms(2)]
  by (simp add: boot_schedule w_def) (simp add: schedule_def started_def unstarted_def)

theorem every_site_checked_once_witness:
  "map fst (requests demo_worker) @ map monitor_url (drop (pointer demo_worker) (arrCheck demo_worker)) =
     [''u'', ''u'']"
proof -
  have "1 \<le> NUM_TO_PROCESS demo_config" by (simp add: demo_config_def sample_config_def)
  from every_site_checked_once [OF this demo_admissible [unfolded demo_boot_def]]
  show ?thesis
    by (simp add: demo_worker_def demo_boot_def) (simp add: demo_events_def demo_site_def)
qed

section \<open>A round comes to its end\<close>

lemma waiting_alive_pos:
  assumes "alive_inv w" and "running w"
  shows "waiting_for w > 0"
proof -
  have s: "in_step w" using assms by (simp add: alive_inv_def)
  have "\<exists>i < length (arrCheck w). \<not> processed (arrCheck w ! i)"
  proof (cases "timers w = 0")
    case True
    with assms s have "outstanding w \<noteq> {}" by (auto simp: alive_inv_def in_step_def)
    with s show ?thesis by (auto simp: outstanding_def in_step_def dest: less_le_trans)
  next
    case False
    with assms s show ?thesis by (auto simp: alive_inv_def in_step_def intro!: exI [of _ 0])
  qed
  then show ?thesis using waiting_for_0 [of w] by (auto simp: all_set_conv_all_nth)
qed

lemma waiting_settled:
  assumes "i < length (arrCheck w)" and "\<not> processed (arrCheck w ! i)" and "processed sv"
  shows "Suc (waiting_for (settled i sv w)) = waiting_for w"
proof -
  let ?xs = "arrCheck w"
  have "?xs = take i ?xs @ ?xs ! i # drop (Suc i) ?xs"
    using assms(1) by (simp add: id_take_nth_drop)
  then have "length (filter (\<lambda>s. \<not> processed s) ?xs) =
      length (filter (\<lambda>s. \<not> processed s) (take i ?xs @ ?xs ! i # drop (Suc i) ?xs))"
    by simp
  with assms show ?thesis
    by (simp add: waiting_for_def settled_def upd_conv_take_nth_drop)
qed

lemma waiting_advance:
  assumes "in_step w"
  shows "waiting_for (advance rss w) = waiting_for w"
proof (cases "pointer w < length (arrCheck w)")
  case True
  then show ?thesis by (simp add: advance_def waiting_for_def)
next
  case False
  define r where "r = retire rss w"
  have r: "waiting_for r = waiting_for w" unfolding r_def by (rule waiting_for_cong) simp
  have "waiting_for (ask_again u) = waiting_for u" for u
    by (rule waiting_for_cong) simp
  with False r show ?thesis
    by (auto simp: advance_def Let_def waiting_for_0 simp flip: r_def) (auto simp: waiting_for_def)
qed

lemma waiting_result:
  assumes "alive_inv w" and "i \<in> set (inflight w)"
  shows "Suc (waiting_for (worker_step (Result i rtt code err now rss) w)) = waiting_for w"
proof -
  have s: "in_step w" using assms by (auto simp: alive_inv_def split: if_splits)
  have i: "i < length (arrCheck w)" "\<not> processed (arrCheck w ! i)"
    using in_flight_bound [OF s assms(2)] by simp_all
  define sv where "sv = result_site i rtt code err now w"
  define v where "v = tallied sv (settled i sv w)"
  have p: "processed sv" by (simp add: sv_def result_site_def)
  have v: "same_queue (settled i sv w) v" by (simp add: v_def)
  have "in_step v"
    using settled_in_step [OF s assms(2) p] in_step_cong [of v "settled i sv w"] v
    by (simp add: same_queue_def)
  then have "waiting_for (with_stats f (advance rss v)) = waiting_for (settled i sv w)" for f
    using waiting_for_cong [OF with_stats_same] waiting_advance waiting_for_cong [OF v] by simp
  with waiting_settled [OF i p] i(1) show ?thesis
    by (simp add: callback_steps Let_def v_def sv_def)
qed

definition is_result :: "worker_event \<Rightarrow> bool" where
  "is_result e = (case e of Result i rtt code err now rss \<Rightarrow> True | _ \<Rightarrow> False)"

lemma waiting_run:
  assumes "worker_inv w" and "wk.admissible es w" and "\<forall>e \<in> set es. is_result e"
  shows "waiting_for (fold worker_step es w) + length es = waiting_for w"
  using assms
proof (induction es arbitrary: w)
  case (Cons e es)
  then obtain i rtt code err now rss where e: "e = Result i rtt code err now rss"
    by (auto simp: is_result_def split: worker_event.splits)
  with Cons.prems have ok: "worker_ok e w" "alive_inv w" "i \<in> set (inflight w)"
    by (auto simp: worker_inv_def)
  have "worker_inv (worker_step e w)" by (rule worker_step_inv [OF Cons.prems(1) ok(1)])
  with Cons.IH [of "worker_step e w"] Cons.prems waiting_result [OF ok(2,3)] e
  show ?case by (metis add_Suc_right fold_simps(2) length_Cons list.set_intros(2) wk.admissible.simps(2))
qed simp

text \<open>
  C22. A round of checks terminates: from any reachable state, callbacks alone, in any order and with
  any answers, are at most as many as there are sites without a result, and when they are that
  many the queue is finished: the worker has exited, or it is idle with an empty queue.
\<close>

theorem callbacks_finish_the_queue:
  assumes "worker_reachable w" and "exited w = None"
    and "wk.admissible es w" and "\<forall>e \<in> set es. is_result e"
  defines "w' \<equiv> fold worker_step es w"
  shows "length es \<le> waiting_for w \<and>
    (length es = waiting_for w \<longrightarrow> exited w' \<noteq> None \<or> \<not> running w' \<and> arrCheck w' = [])"
proof -
  have n: "waiting_for w' + length es = waiting_for w"
    using waiting_run [OF reachable_inv [OF assms(1)] assms(3,4)] by (simp add: w'_def)
  have "worker_reachable w'" unfolding w'_def by (rule reachable_run [OF assms(1,3)])
  then have "exited w' = None \<Longrightarrow> alive_inv w'" by (rule reachable_alive)
  then have "waiting_for w' = 0 \<Longrightarrow> exited w' \<noteq> None \<or> \<not> running w' \<and> arrCheck w' = []"
    using waiting_alive_pos [of w'] by (fastforce simp: alive_inv_def)
  with n show ?thesis by auto
qed

theorem callbacks_finish_the_queue_witness:
  "waiting_for demo_worker = 2 \<and>
   arrCheck (fold worker_step [Result 0 5000 200 0 99 0, Result 1 5000 500 0 99 0] demo_worker) = []"
proof -
  have adm: "wk.admissible [Result 0 5000 200 0 99 0, Result 1 5000 500 0 99 0] demo_worker"
    by (simp only: wk.admissible.simps) code_simp
  have n: "waiting_for demo_worker = 2" by code_simp
  have "\<forall>e \<in> set [Result 0 5000 200 0 99 0, Result 1 5000 500 0 99 0]. is_result e"
    by (simp add: is_result_def)
  note fin = callbacks_finish_the_queue [OF demo_reachable demo_alive adm this]
  have "exited (fold worker_step [Result 0 5000 200 0 99 0, Result 1 5000 500 0 99 0] demo_worker) = None"
    by code_simp
  with fin n show ?thesis by simp
qed

text \<open>
  C25. A worker is never stuck: while it has a site without a result, its 50 ms timer is pending or a
  check is in flight, so the environment owes it an event; and no event of its own is owed
  when the queue is idle.
\<close>

theorem busy_worker_has_event:
  assumes "worker_reachable w" and "exited w = None"
  shows "waiting_for w > 0 \<longleftrightarrow>
    worker_ok Check_timer w \<or> (\<exists>i. \<forall>rtt code err now rss. worker_ok (Result i rtt code err now rss) w)"
proof -
  have a: "alive_inv w" using assms by (rule reachable_alive)
  show ?thesis
  proof (cases "running w")
    case True
    with a waiting_alive_pos [OF a] assms(2) show ?thesis
      by (cases "inflight w") (auto simp: alive_inv_def split: if_splits)
  next
    case False
    with a show ?thesis by (simp add: alive_inv_def waiting_for_def)
  qed
qed

theorem busy_worker_has_event_witness:
  "\<exists>i. worker_ok (Result i 1 200 0 0 0) demo_worker"
proof -
  have "waiting_for demo_worker > 0" "timers demo_worker = 0" by code_simp+
  with busy_worker_has_event [OF demo_reachable demo_alive] show ?thesis by auto
qed

section \<open>Parallel checks\<close>

fun configures :: "worker_event \<Rightarrow> int \<Rightarrow> bool" where
  "configures (Request (Some c) rnd Config_update) n \<longleftrightarrow> NUM_TO_PROCESS c \<le> n"
| "configures e n \<longleftrightarrow> True"

definition narrow :: "int \<Rightarrow> worker \<Rightarrow> bool" where
  "narrow n w \<longleftrightarrow> NUM_TO_PROCESS (cfg w) \<le> n \<and> int (length (inflight w)) \<le> n"

lemma narrow_same: "same_queue w w' \<Longrightarrow> narrow n w' = narrow n w"
  by (simp add: narrow_def same_queue_def)

lemma inflight_advance: "length (inflight (advance rss w)) \<le> Suc (length (inflight w))"
  by (auto simp: advance_def Let_def ask_again_def retire_def)

lemma cfg_advance: "cfg (advance rss w) = cfg w"
  by (auto simp: advance_def Let_def ask_again_def retire_def)

lemma narrow_result:
  assumes "narrow n w" and "alive_inv w" and "i \<in> set (inflight w)"
  shows "narrow n (worker_step (Result i rtt code err now rss) w)"
proof -
  have s: "in_step w" using assms by (auto simp: alive_inv_def split: if_splits)
  have i: "i < length (arrCheck w)" using in_flight_bound [OF s assms(3)] by simp
  define sv where "sv = result_site i rtt code err now w"
  define v where "v = tallied sv (settled i sv w)"
  have v: "same_queue (settled i sv w) v" by (simp add: v_def)
  have "Suc (length (inflight v)) = length (inflight w)" "cfg v = cfg w"
    using v assms(3) length_pos_if_in_set [OF assms(3)]
    by (simp_all add: same_queue_def settled_def length_remove1)
  then have "narrow n (advance rss v)"
    using assms(1) inflight_advance [of rss v] by (simp add: narrow_def cfg_advance)
  then have "narrow n (with_stats f (advance rss v))" for f
    using narrow_same [OF with_stats_same] by simp
  with i show ?thesis by (simp add: callback_steps Let_def v_def sv_def)
qed

lemma narrow_check_timer:
  assumes "narrow n w" and "alive_inv w" and "timers w > 0"
  shows "narrow n (checkServers (w\<lparr>timers := timers w - 1\<rparr>))"
proof -
  let ?w = "w\<lparr>timers := timers w - 1\<rparr>"
  have w: "in_step w" "NUM_TO_PROCESS (cfg w) \<ge> 1" "pointer w = 0"
    using assms(2,3) by (auto simp: alive_inv_def split: if_splits)
  then have "in_step ?w" "NUM_TO_PROCESS (cfg ?w) \<ge> 1" "inflight w = []"
    using in_step_cong [of ?w w] by (auto simp: in_step_def outstanding_def)
  then obtain m where m: "checkServers ?w = check_loop m ?w"
      "m = min (pointer ?w + nat (NUM_TO_PROCESS (cfg ?w))) (length (arrCheck ?w))"
    using checkServers_bound by metis
  have "length (inflight (check_loop m ?w)) = m"
    using w \<open>inflight w = []\<close> by (simp add: check_loop_inflight)
  moreover have "int m \<le> NUM_TO_PROCESS (cfg w)" using w(2,3) m(2) by simp
  ultimately show ?thesis
    using assms(1) check_loop_frame [of m ?w] unfolding m(1) narrow_def by simp
qed

lemma narrow_step:
  assumes "narrow n w" and "worker_inv w" and "worker_ok e w" and "configures e n"
  shows "narrow n (worker_step e w)"
proof -
  have a: "alive_inv w" using assms(2,3) by (cases e) (auto simp: worker_inv_def)
  show ?thesis
  proof (cases e)
    case (Request fl rnd m)
    have "narrow n (reloadConfig rnd (w\<lparr>cfg := c\<rparr>)) = narrow n (w\<lparr>cfg := c\<rparr>)" for c
      by (rule narrow_same [OF reloadConfig_frame])
    then show ?thesis using Request assms
      by (cases m; cases fl) (auto simp: narrow_def addToQueue_def)
  next
    case Check_timer
    with narrow_check_timer [OF assms(1) a] assms(3) show ?thesis by simp
  next
    case (Result i rtt code err now rss)
    with narrow_result [OF assms(1) a] assms(3) show ?thesis by simp
  next
    case Totals_timer
    with assms(1) narrow_same [OF sendStats_same] show ?thesis by simp
  next
    case (Stats_timer now rss)
    with assms(1) narrow_same [OF stats_tick_same] show ?thesis by simp
  next
    case (Ask_timer c)
    with assms(1) narrow_same [OF ask_timer_same] show ?thesis by simp
  qed
qed

lemma narrow_run:
  "narrow n w \<Longrightarrow> worker_inv w \<Longrightarrow> wk.admissible es w \<Longrightarrow> \<forall>e \<in> set es. configures e n \<Longrightarrow>
   narrow n (fold worker_step es w)"
  by (induction es arbitrary: w) (auto intro: narrow_step worker_step_inv)

text \<open>
  C36. NUM_TO_PROCESS bounds the parallel checks: whatever the events, the counter \<open>activeChecks\<close> is
  the number of checks in flight, and never above the greatest NUM_TO_PROCESS configured.
\<close>

theorem parallel_checks_bounded:
  assumes "1 \<le> NUM_TO_PROCESS c" and "NUM_TO_PROCESS c \<le> n"
    and "wk.admissible es (boot_worker p h c now rnd)" and "\<forall>e \<in> set es. configures e n"
  defines "w \<equiv> fold worker_step es (boot_worker p h c now rnd)"
  shows "activeChecks w = int (length (inflight w)) \<and> activeChecks w \<le> n"
proof -
  have i: "worker_inv (boot_worker p h c now rnd)" by (rule boot_worker_inv [OF assms(1)])
  have "narrow n (boot_worker p h c now rnd)"
    using assms(1,2) by (simp add: narrow_def boot_worker_def reloadConfig_def Let_def)
  then have "narrow n w" unfolding w_def by (rule narrow_run [OF _ i assms(3,4)])
  moreover have "worker_inv w" unfolding w_def by (rule wk.inv_run [OF i assms(3)])
  ultimately show ?thesis
    by (auto simp: narrow_def worker_inv_def alive_inv_def dead_inv_def split: if_splits)
qed

theorem parallel_checks_bounded_witness: "activeChecks demo_worker \<le> 1"
proof -
  have c: "1 \<le> NUM_TO_PROCESS demo_config" "NUM_TO_PROCESS demo_config \<le> 1"
    by (simp_all add: demo_config_def sample_config_def)
  have "\<forall>e \<in> set demo_events. configures e 1" by (simp add: demo_events_def)
  from parallel_checks_bounded [OF c demo_admissible [unfolded demo_boot_def] this]
  show ?thesis by (simp add: demo_worker_def demo_boot_def)
qed

section \<open>Limits\<close>

text \<open>
  The limits a worker runs under: a positive WORKER_MAX_CHECKS or WORKER_MAX_MEM_MB is the
  limit, a negative one lifts it.  Zero lifts the limit on checks; a WORKER_MAX_MEM_MB of zero,
  which \<open>config.readme\<close> documents as no limit, is 96 MB like a missing one.
\<close>

theorem limits_of_configuration:
  "maxChecks (reloadConfig rnd w) =
     (case WORKER_MAX_CHECKS (cfg w) of None \<Rightarrow> MAX_VALUE | Some n \<Rightarrow> if n > 0 then n else MAX_VALUE) \<and>
   maxMemUsage (reloadConfig rnd w) =
     (case WORKER_MAX_MEM_MB (cfg w) of None \<Rightarrow> 96 * 1024 * 1024
      | Some n \<Rightarrow> if n = 0 then 96 * 1024 * 1024 else if n > 0 then n * 1024 * 1024 else MAX_VALUE)"
  by (auto simp: reloadConfig_def Let_def js_or_def split: option.splits)

end
