(* ===== verification/Link.thy ===== *)
theory Link
  imports Round_Properties Worker_Properties
begin

text \<open>
  What the master and its workers guarantee each other.  The master starts processes only where it says
  so, and sends requests to registered workers only; a worker speaks for itself only, and sends back
  sites with checks of its own only.
\<close>

section \<open>The trace of the master\<close>

text \<open>The processes started, and the requests sent to one of them.\<close>

definition forked :: "out list \<Rightarrow> nat list" where
  "forked xs = concat (map (\<lambda>x. case x of Fork p \<Rightarrow> [p] | _ \<Rightarrow> []) xs)"

definition requests_to :: "nat \<Rightarrow> out list \<Rightarrow> worker_request list" where
  "requests_to p xs = concat (map (\<lambda>x. case x of To_worker q r \<Rightarrow> if q = p then [r] else [] | _ \<Rightarrow> []) xs)"

lemma trace_simps [simp]:
  "forked [] = []" "forked (xs @ ys) = forked xs @ forked ys" "requests_to p [] = []"
  "requests_to p (xs @ ys) = requests_to p xs @ requests_to p ys"
  "forked (x # xs) = (case x of Fork p \<Rightarrow> [p] | _ \<Rightarrow> []) @ forked xs"
  "requests_to p (x # xs) = (case x of To_worker q r \<Rightarrow> if q = p then [r] else [] | _ \<Rightarrow> []) @ requests_to p xs"
  by (simp_all add: forked_def requests_to_def)

lemma requests_to_set: "r \<in> set (requests_to p xs) \<longleftrightarrow> To_worker p r \<in> set xs"
  by (induction xs) (auto split: out.split if_splits)

lemma no_requests: "(\<And>r. To_worker p r \<notin> set xs) \<Longrightarrow> requests_to p xs = []"
  by (metis list.exhaust list.set_intros(1) requests_to_set)

text \<open>What a handler that starts no process may do to the pool and to the trace.\<close>

definition aimed :: "master \<Rightarrow> out \<Rightarrow> bool" where
  "aimed s x = (case x of Fork p \<Rightarrow> False | To_worker p r \<Rightarrow> p \<in> pids s | _ \<Rightarrow> True)"

definition tame :: "master \<Rightarrow> master \<Rightarrow> bool" where
  "tame s t \<longleftrightarrow> arrWorkers t = arrWorkers s \<and> (\<exists>xs. outs t = outs s @ xs \<and> (\<forall>x \<in> set xs. aimed s x))"

lemma aimed_simps [simp]:
  "aimed s (Stat c)" "aimed s (Db_call q)" "aimed s (Notify nt)" "aimed s (Ask_veriflier v b)"
  "aimed s (Set_timer tm k)" "aimed s (Disconnect p)" "aimed s (Console t)" "aimed s (Open_file j)" "aimed s (Write_file fl ln)" "aimed s (Exit k)" "\<not> aimed s (Fork p)"
  "aimed s (To_worker p r) \<longleftrightarrow> p \<in> pids s"
  by (simp_all add: aimed_def)

lemma tame_preorder: "preorder_rel tame"
proof (rule preorder_relI)
  fix u v w assume "tame u v" "tame v w"
  then obtain xs ys where t: "arrWorkers v = arrWorkers u" "arrWorkers w = arrWorkers v"
      "outs v = outs u @ xs" "outs w = outs v @ ys"
      "\<forall>x \<in> set xs. aimed u x" "\<forall>x \<in> set ys. aimed v x"
    by (auto simp: tame_def)
  have "aimed v x \<Longrightarrow> aimed u x" for x
    using t(1) by (cases x) (simp_all add: pids_def)
  with t have "outs w = outs u @ (xs @ ys)" "\<forall>x \<in> set (xs @ ys). aimed u x" by auto
  with t show "tame u w" unfolding tame_def by metis
qed (simp add: tame_def)

lemma tame_trans: "tame u v \<Longrightarrow> tame v w \<Longrightarrow> tame u w"
  using tame_preorder unfolding preorder_rel_def by blast

lemma tame_refl [simp]: "tame s s"
  by (simp add: tame_def)

lemma tame_update: "arrWorkers t = arrWorkers s \<Longrightarrow> outs t = outs s \<Longrightarrow> tame s t"
  by (simp add: tame_def)

lemma effect_pool [simp]:
  "arrWorkers (emit_calls calls s) = arrWorkers s" "arrWorkers (emit_stats cs s) = arrWorkers s"
  by (simp_all add: emit_calls_def emit_stats_def)

lemma tame_emit [simp]:
  "aimed s x \<Longrightarrow> tame s (emit x s)" "tame s (increment m v s)" "tame s (timing m v s)"
  "tame s (emit_calls calls s)" "tame s (emit_stats cs s)"
  by (auto simp: tame_def emit_stats_def)

lemma tame_notify [simp]: "tame s (notify srv st s)"
  by (auto simp: tame_def notify_def split_beta Let_def)

lemma tame_announce [simp]: "tame s (announce k srv st s)"
  unfolding announce_def by (rule tame_trans [OF tame_update tame_notify]) simp_all

lemma tame_notify_again [simp]: "tame s (notify_again i s)"
  by (simp add: notify_again_def Let_def)

lemma tame_due [simp]:
  "tame (s\<lparr>roundTimers := n\<rparr>) t = tame s t" "tame (s\<lparr>restartTimers := n\<rparr>) t = tame s t"
  "tame (s\<lparr>queriesDue := n\<rparr>) t = tame s t"
proof -
  have "aimed (s\<lparr>roundTimers := n\<rparr>) x = aimed s x" "aimed (s\<lparr>restartTimers := n\<rparr>) x = aimed s x"
    "aimed (s\<lparr>queriesDue := n\<rparr>) x = aimed s x" for x
    by (cases x; simp add: pids_def)+
  then show "tame (s\<lparr>roundTimers := n\<rparr>) t = tame s t" "tame (s\<lparr>restartTimers := n\<rparr>) t = tame s t"
    "tame (s\<lparr>queriesDue := n\<rparr>) t = tame s t"
    by (simp_all add: tame_def)
qed

lemma tame_getMoreSites [simp]: "tame s (getMoreSites now s)"
  by (auto simp: tame_def getMoreSites_def Let_def split_beta)

lemma tame_maybeEndRound [simp]: "tame s (maybeEndRound now s)"
  by (auto simp: tame_def maybeEndRound_def Let_def)

lemma tame_assign [simp]: "tame s (assign_work_to_worker p sz s)"
  using getWorker_pid
  by (auto simp: tame_def assign_work_to_worker_def get_work_dataset_def Let_def split_beta pids_def
      split: option.split)

lemma tame_send_work [simp]: "tame s (send_work now p s)"
proof (cases "int (length (arrWorkers s)) > NUM_WORKERS (conf s)")
  case True
  then show ?thesis using getWorker_pid by (auto simp: send_work_def split: option.split)
next
  case False
  define u where "u = (if p \<notin> set (haltedWorkers s) \<and> p \<notin> set (freeWorkers s)
      then s\<lparr>freeWorkers := freeWorkers s @ [p]\<rparr> else s)"
  have 1: "tame s u" by (simp add: u_def tame_update)
  have 2: "tame s (getMoreSites now (u\<lparr>gettingSites := True\<rparr>))"
    by (rule tame_trans [OF 1 tame_trans [OF tame_update tame_getMoreSites]]) simp_all
  have 3: "tame s v \<Longrightarrow> tame s (maybeEndRound now v)" for v
    by (rule tame_trans [OF _ tame_maybeEndRound])
  show ?thesis using False 1 2 3
    by (simp add: send_work_def Let_def flip: u_def)
qed

lemma tame_ask_each [simp]: "tame s (ask_each now ps s)"
proof (induction ps arbitrary: s)
  case (Cons p ps)
  have "tame s (if getWorker p s \<noteq> None then send_work now p s else s)" by simp
  from tame_trans [OF this Cons.IH] show ?case by simp
qed simp

lemma tame_freeWorkersToWork [simp]: "tame s (freeWorkersToWork now s)"
  using tame_trans [OF tame_update [of "s\<lparr>freeWorkers := []\<rparr>" s] tame_ask_each]
  by (simp add: freeWorkersToWork_def)

lemma tame_stop_work [simp]: "tame s (stop_work now p s)"
  unfolding stop_work_def by (rule tame_trans [OF _ tame_maybeEndRound]) (simp add: tame_update)

lemma tame_batch: "tame s (batch_result now begun res s)"
proof -
  have m: "tame u (getMoreSites now (u\<lparr>database := d\<rparr>))" for u d
    by (rule tame_trans [OF tame_update tame_getMoreSites]) simp_all
  have f: "tame u (freeWorkersToWork now v)" if "tame u v" for u v
    by (rule tame_trans [OF that tame_freeWorkersToWork])
  have "tame s (batch_rows now begun rows (s\<lparr>database := d\<rparr>))" for rows d
    using m by (auto simp: batch_rows_def tame_def Let_def split: option.split intro!: f [unfolded tame_def])
  then show ?thesis
    by (auto simp: batch_result_def split_beta tame_update split: option.split)
qed

lemma tame_worker_stats: "tame s (worker_stats p rep cs s)"
proof -
  define u where "u = s\<lparr>checkStats := merge_stats (checkStats s) cs, workerStats := nobj_put p rep (workerStats s)\<rparr>"
  define v where "v = (if uptime rep > 5000 then increment ''worker.queue.queue_size'' (int (queueLength rep))
      (increment ''worker.queue.active'' (report_activeChecks rep) u) else u)"
  have v: "tame s v" by (simp add: u_def v_def tame_def)
  show ?thesis using v tame_trans [OF v tame_assign]
    by (simp add: worker_stats_def Let_def u_def [symmetric] v_def [symmetric])
qed

lemma tame_msg: "tame s (workerMsgCallback now m s)"
proof (cases m)
  case (Recheck sv)
  then show ?thesis
    by (simp add: recheck_def add_server_to_local_retries_def host_check_request_def tame_update)
qed (simp_all add: tame_worker_stats count_totals_def tame_update)

lemma tame_checkHostStatus: "tame s (fst (checkHostStatus h d now s))"
proof -
  have "tame s (announce k r SITE_DOWN (s\<lparr>queuedRetries := q, openNotices := os\<rparr>))" for k and r :: retry and q os
    by (rule tame_trans [OF tame_update tame_announce]) simp_all
  then show ?thesis
    by (simp add: checkHostStatus_def tame_update Let_def split: prod.split sum.split option.split)
qed

lemma tame_ssl: "tame s (sslWorkerCallBack now m s)"
  by (cases m) (auto intro: tame_checkHostStatus check_each_closed [OF tame_preorder])

lemma tame_updateStats: "tame s (updateStats now rss s)"
  by (auto simp: tame_def updateStats_def restart_if_late_def resetVariables_def emit_stats_def Let_def)

lemma tame_file_opened: "tame s (file_opened j s)"
  by (auto simp: tame_def) (auto simp: file_opened_def)

lemma tame_reload: "tame s (reload_signal fl s)"
proof (cases fl)
  case (Some c)
  have "tame u (fold (\<lambda>w. emit (To_worker (proc_pid w) Config_update)) ws u)"
    if "set ws \<subseteq> set (arrWorkers u)" for ws u
    using that
  proof (induction ws arbitrary: u)
    case (Cons w ws)
    have "tame u (emit (To_worker (proc_pid w) Config_update) u)" using Cons.prems by (simp add: pids_def)
    with Cons.IH [of "emit (To_worker (proc_pid w) Config_update) u"] Cons.prems tame_trans
    show ?case by simp
  qed simp
  then have "tame (increment m v (s\<lparr>conf := c\<rparr>))
      (fold (\<lambda>w. emit (To_worker (proc_pid w) Config_update)) (arrWorkers s) (increment m v (s\<lparr>conf := c\<rparr>)))" for m v
    by simp
  moreover have "tame s (increment m v (s\<lparr>conf := c\<rparr>))" for m v by (simp add: tame_def)
  ultimately have "tame s (fold (\<lambda>w. emit (To_worker (proc_pid w) Config_update)) (arrWorkers s)
      (increment m v (s\<lparr>conf := c\<rparr>)))" for m v
    using tame_trans by blast
  then show ?thesis using Some by (simp add: reload_signal_def Let_def)
qed (simp add: reload_signal_def)

lemma tame_local_loop: "local_loop now k b s = (b', t) \<Longrightarrow> tame s t"
proof (induction k arbitrary: b s)
  case (Suc k)
  have r: "tame s (requeue k s)" by (simp add: requeue_def tame_update)
  have d: "tame s (direct k i s)" if "first_live s (freeWorkers s) = Some i" for i
    using first_live_Some [OF that] getWorker_iff by (auto simp: direct_def tame_def)
  from Suc.prems show ?case
    unfolding local_loop_Suc
    by (auto split: if_splits option.splits dest!: Suc.IH intro: tame_trans [OF d] tame_trans [OF r])
qed simp

lemma tame_tick:
  assumes "processQueuedRetries now s = Some t"
  shows "tame s t"
proof -
  obtain u where u: "remote_tick now s = Some u" "t = local_tick now u"
    using assms by (auto simp: processQueuedRetries_def)
  obtain bs where bs: "u = fold ask_verifliers bs (s\<lparr>queuedRetries := kept (conf s) now (queuedRetries s)\<rparr>)"
    using remote_tick_spec [OF u(1)] by blast
  have "tame v (ask_verifliers b v)" for b v
    unfolding ask_verifliers_def by (rule fold_closed [OF tame_preorder]) simp
  then have "tame v (fold ask_verifliers bs v)" for v
    by (rule fold_closed [OF tame_preorder])
  from tame_trans [OF tame_update this] have 1: "tame s u" by (simp add: bs)
  obtain b v where v: "local_loop now (length (localRetries u)) False u = (b, v)" by (metis surj_pair)
  have 2: "tame u v" by (rule tame_local_loop [OF v])
  have "tame v (if b then freeWorkersToWork now v else v)" by simp
  from tame_trans [OF tame_trans [OF 1 2] this] u(2) v show ?thesis by (simp add: local_tick_def)
qed

text \<open>Every event but the two that may start a process.\<close>

fun spawns :: "master_event \<Rightarrow> bool" where
  "spawns (Worker_exit p code e q) = True"
| "spawns (Count_timer fresh) = True"
| "spawns e = False"

lemma tame_step: "\<not> spawns e \<Longrightarrow> tame s (master_step e s)"
proof (cases e)
  case (Worker_msg now m)
  with tame_msg show ?thesis by simp
next
  case (Ssl_msg now m)
  with tame_ssl show ?thesis by simp
next
  case (Tick now)
  with tame_tick show ?thesis by (simp split: option.split)
next
  case (Stats_tick now rss)
  with tame_updateStats show ?thesis by simp
next
  case (Round_timer now)
  have "tame s (resetVariables now (s\<lparr>roundTimers := n\<rparr>))" for n by (simp add: resetVariables_def tame_update)
  from tame_trans [OF this tame_getMoreSites] Round_timer show ?thesis by (simp add: next_round_timer_def)
next
  case (Batch now begun res)
  with tame_batch [of "s\<lparr>queriesDue := queriesDue s - 1\<rparr>"] show ?thesis by simp
next
  case (Restart_timer now)
  have "tame s (getMoreSites now (s\<lparr>restartTimers := n\<rparr>))" for n
    using tame_getMoreSites [of "s\<lparr>restartTimers := n\<rparr>" now] by (simp only: tame_due)
  with Restart_timer show ?thesis by simp
next
  case (Reload fl)
  with tame_reload show ?thesis by simp
next
  case (Db_updated b)
  then show ?thesis by (simp add: tame_update)
next
  case (File_opened j)
  then show ?thesis by (simp add: tame_file_opened)
qed simp_all

section \<open>Starting processes\<close>

definition spawned :: "nat list \<Rightarrow> master \<Rightarrow> master \<Rightarrow> bool" where
  "spawned qs s t \<longleftrightarrow> (\<exists>xs. outs t = outs s @ xs \<and> forked xs = qs \<and> (\<forall>p. requests_to p xs = []))"

lemma spawned_trans: "spawned qs s t \<Longrightarrow> spawned rs t u \<Longrightarrow> spawned (qs @ rs) s u"
  by (fastforce simp: spawned_def)

lemma spawned_none [simp]:
  "spawned [] s s" "spawned [] s (increment m v s)" "spawned [] s (deleteWorker p s)"
  by (auto simp: spawned_def deleteWorker_def Let_def)

lemma spawned_spawnWorker [simp]: "spawned [q] s (spawnWorker q s)"
proof -
  define v where "v = increment ''worker.spawn.new.count'' 1 (emit (Fork q) s)"
  have "spawned [q] s v" by (simp add: spawned_def v_def)
  from spawned_trans [OF this spawned_none(3) [of v q]]
  show ?thesis unfolding spawnWorker_def Let_def v_def [symmetric] by (simp add: spawned_def)
qed

lemma spawned_fold: "spawned qs s (fold spawnWorker qs s)"
proof (induction qs arbitrary: s)
  case (Cons q qs)
  from spawned_trans [OF spawned_spawnWorker Cons.IH] show ?case by simp
qed simp

lemma pids_eq: "pids s = set (map proc_pid (arrWorkers s))"
  by (simp add: pids_def)

text \<open>What the two events that may start a process do to the pool, for process ids not in use.\<close>

lemma exit_spawns:
  fixes code :: "int option"
  assumes "pool_inv s" and "p \<noteq> 0" and "q \<noteq> 0" and "q \<notin> pids s"
  defines "qs \<equiv> if snd (exit_kind code) then [q] else []"
  defines "t \<equiv> worker_exit p code False q s"
  shows "spawned qs s t \<and> pids t = (pids s - {p}) \<union> set qs"
proof -
  define u where "u = deleteWorker p (increment (fst (exit_kind code)) 1 s)"
  define v where "v = increment (fst (exit_kind code)) 1 s"
  have v: "pool_inv v" "pids v = pids s" "spawned [] s v"
    using assms(1) by (simp_all add: v_def pids_def)
  have d: "distinct (map proc_pid (arrWorkers v))" using v(1) by (simp add: pool_inv_def)
  have u: "pool_inv u" "spawned [] s u" "pids u = pids s - {p}"
    using deleteWorker_inv [OF v(1)] spawned_trans [OF v(3) spawned_none(3)] pids_delete [OF d assms(2)] v(2)
    unfolding u_def v_def [symmetric] by simp_all
  have "pids (spawnWorker q u) = insert q (pids u)"
    using spawn_new [OF u(1) assms(3)] assms(4) u(3) by (simp add: pids_eq del: set_map)
  moreover have "spawned [q] s (spawnWorker q u)"
    using spawned_trans [OF u(2) spawned_spawnWorker] by simp
  moreover have "t = (if snd (exit_kind code) then spawnWorker q u else u)"
    by (simp add: t_def worker_exit_def u_def split_beta Let_def)
  ultimately show ?thesis using u by (simp add: qs_def)
qed

lemma ensure_spawns:
  assumes "pool_inv s" and "inj fresh" and "\<forall>i. fresh i \<noteq> 0 \<and> fresh i \<notin> pids s"
  defines "qs \<equiv> map fresh [0 ..< nat (NUM_WORKERS (conf s) - int (length (arrWorkers s)))]"
  defines "t \<equiv> \<lambda>b. ensure_worker_count fresh b s"
  shows "spawned qs s (t b) \<and> pids (t b) = pids s \<union> set qs"
proof (cases "int (length (arrWorkers s)) < NUM_WORKERS (conf s)")
  case True
  define u where "u = (if \<not> b then increment ''worker.spawn.missing.count''
      (NUM_WORKERS (conf s) - int (length (arrWorkers s))) s else s)"
  have u: "pool_inv u" "pids u = pids s" "spawned [] s u"
    using assms(1) by (simp_all add: u_def pids_def)
  have t: "t b = fold spawnWorker qs u"
    using True by (simp add: t_def ensure_worker_count_def u_def qs_def Let_def)
  have 0: "0 \<notin> set qs" unfolding qs_def by (rule fresh_pids) (use assms(3) in blast)
  have "distinct qs" "set qs \<inter> pids u = {}"
    using assms(2,3) u(2) by (auto simp: qs_def distinct_map inj_on_def inj_def)
  from fold_spawn_new [OF u(1) 0 this]
  have "pids (t b) = pids s \<union> set qs" using u(2) by (simp add: pids_eq t del: set_map)
  with spawned_trans [OF u(3) spawned_fold] t show ?thesis by simp
next
  case False
  then show ?thesis by (simp add: t_def ensure_worker_count_def qs_def)
qed

section \<open>The word of a worker\<close>

definition own :: "nat \<Rightarrow> worker_msg \<Rightarrow> bool" where
  "own p m = (case m of
      Recheck sv \<Rightarrow> by_workers sv
    | Notify_status_change sv \<Rightarrow> site_status sv = SITE_RUNNING
    | Send_work q \<Rightarrow> q = p | Stop_work q \<Rightarrow> q = p | Stats q rep cs \<Rightarrow> q = p | _ \<Rightarrow> True)"

lemma own_simps [simp]:
  "own p (Totals t)" "own p (Notify_still_down sv)"
  "own p (Notify_status_change sv) \<longleftrightarrow> site_status sv = SITE_RUNNING"
  "own p (Unknown_request k)" "own p (Recheck sv) \<longleftrightarrow> by_workers sv" "own p (Send_work q) \<longleftrightarrow> q = p"
  "own p (Stop_work q) \<longleftrightarrow> q = p" "own p (Stats q rep cs) \<longleftrightarrow> q = p"
  by (simp_all add: own_def)

definition honest :: "worker \<Rightarrow> bool" where
  "honest w \<longleftrightarrow> (\<forall>sv \<in> set (arrCheck w). \<not> processed sv \<longrightarrow> by_workers sv) \<and> (\<forall>m \<in> set (posted w). own (pid w) m)"

lemma boot_honest: "honest (boot_worker p h c now rnd)"
  by (simp add: honest_def boot_worker_def reloadConfig_def Let_def)

lemma pid_boot [simp]: "pid (boot_worker p h c now rnd) = p"
  by (simp add: boot_worker_def reloadConfig_def Let_def)

lemma check_loop_word:
  "pid (check_loop m w) = pid w \<and> posted (check_loop m w) = posted w \<and> arrCheck (check_loop m w) = arrCheck w"
proof (induction m w rule: check_loop.induct)
  case (1 m w)
  have "pid (start_check w) = pid w" by (simp add: start_check_def)
  with 1 show ?case by (simp add: check_loop.simps [of m w])
qed

lemma honest_request:
  assumes "honest w" and "worker_ok (Request fl rnd m) w"
  shows "honest (on_message fl rnd m w) \<and> pid (on_message fl rnd m w) = pid w"
proof (cases m)
  case (Queue_add d)
  with assms show ?thesis
    by (auto simp: honest_def addToQueue_def fresh_payload_def pristine_def)
next
  case Config_update
  with assms(1) show ?thesis
    by (auto simp: honest_def reloadConfig_def Let_def split: option.split)
qed (use assms(1) in \<open>auto simp: honest_def post_def\<close>)

lemma reports_own: "by_workers sv \<Longrightarrow> \<forall>m \<in> set (reports (judged w now rtt code err sv)). own p m"
  by (auto simp: reports_def by_workers_def checks_judged local_check_def)

lemma advance_word:
  "pid (advance rss w) = pid w \<and> set (arrCheck (advance rss w)) \<subseteq> set (arrCheck w)"
  by (auto simp: advance_def Let_def start_check_def retire_def ask_again_def post_def)

lemma honest_result:
  fixes rtt now rss :: int and code err :: nat
  assumes "honest w" and "i < length (arrCheck w)" and "\<not> processed (arrCheck w ! i)"
  defines "u \<equiv> worker_step (Result i rtt code err now rss) w"
  shows "honest u \<and> pid u = pid w"
proof -
  define sv where "sv = result_site i rtt code err now w"
  have "by_workers (arrCheck w ! i)" using assms(1-3) by (simp add: honest_def)
  from reports_own [OF this] have sv: "processed sv" "\<forall>m \<in> set (reports sv). own (pid w) m"
    by (simp_all add: sv_def result_site_def)
  define v where "v = tallied sv (settled i sv w)"
  obtain f where u: "u = with_stats f (advance rss v)"
    using assms(2) by (auto simp: u_def callback_steps Let_def sv_def v_def)
  have "arrCheck v = (arrCheck w)[i := sv]"
    using tallied_same [of "settled i sv w" sv] by (simp add: v_def same_queue_def settled_def)
  then have "set (arrCheck v) \<subseteq> insert sv (set (arrCheck w))" by (simp add: set_update_subset_insert)
  then have a: "set (arrCheck u) \<subseteq> insert sv (set (arrCheck w))"
    using advance_word [of rss v] by (auto simp: u with_stats_def)
  have p: "pid u = pid w"
    using advance_word [of rss v] by (simp add: u with_stats_def) (simp add: v_def)
  obtain ms where "posted u = posted w @ reports sv @ ms" "set ms \<subseteq> {Stop_work (pid w), Send_work (pid w)}"
    using posted_callback [OF assms(2)] unfolding u_def sv_def by blast
  then have "\<forall>m \<in> set (posted u). own (pid w) m"
    using assms(1) sv(2) by (auto simp: honest_def)
  with a p sv(1) assms(1) show ?thesis by (auto simp: honest_def)
qed

lemma honest_step:
  assumes "worker_inv w" and "honest w" and "worker_ok e w"
  shows "honest (worker_step e w) \<and> pid (worker_step e w) = pid w"
proof (cases e)
  case (Request fl rnd m)
  with honest_request [OF assms(2)] assms(3) show ?thesis by simp
next
  case Check_timer
  with assms(2) show ?thesis by (simp add: checkServers_def Let_def check_loop_word honest_def)
next
  case (Result i rtt code err now rss)
  then have "i < length (arrCheck w) \<and> \<not> processed (arrCheck w ! i)"
    using assms(1,3) result_alive(2) [of w i] by (auto simp: worker_inv_def alive_inv_def in_step_def outstanding_def split: if_splits)
  with honest_result [OF assms(2)] Result show ?thesis by blast
next
  case Totals_timer
  with assms(2) show ?thesis by (auto simp: sendStats_def honest_def post_def Let_def)
next
  case (Stats_timer now rss)
  with assms(2) show ?thesis by (auto simp: stats_tick_def honest_def post_def)
next
  case (Ask_timer c)
  with assms(2) show ?thesis by (auto simp: ask_timer_def honest_def post_def Let_def)
qed

end
