(* ===== verification/System.thy ===== *)
theory System
  imports Link
begin

text \<open>
  The master and its workers together.  A channel is what one side has written and the other has not yet
  read: the requests in the master's trace beyond the number the worker has taken, the messages the
  worker has posted beyond the number the master has heard.  The processes run in any order, one
  handler at a time.
\<close>

section \<open>State\<close>

record system =
  parent :: master
  fleet :: "nat \<Rightarrow> worker option"
  taken :: "nat \<Rightarrow> nat"
  heard :: "nat \<Rightarrow> nat"

text \<open>The process ids given out so far, and what is under way to and from a worker.\<close>

definition used :: "system \<Rightarrow> nat set" where
  "used S = set (forked (outs (parent S)))"

definition pending_requests :: "nat \<Rightarrow> system \<Rightarrow> worker_request list" where
  "pending_requests p S = drop (taken S p) (requests_to p (outs (parent S)))"

definition pending_msgs :: "nat \<Rightarrow> system \<Rightarrow> worker_msg list" where
  "pending_msgs p S = (case fleet S p of None \<Rightarrow> [] | Some w \<Rightarrow> drop (heard S p) (posted w))"

fun sites_of :: "worker_request \<Rightarrow> site list" where
  "sites_of (Queue_add d) = d"
| "sites_of r = []"

section \<open>Steps\<close>

text \<open>\<open>birth q\<close> is the worker that a new process \<open>q\<close> starts as.\<close>

definition adopt :: "(nat \<Rightarrow> worker) \<Rightarrow> out list \<Rightarrow> (nat \<Rightarrow> worker option) \<Rightarrow> nat \<Rightarrow> worker option" where
  "adopt birth xs f = fold (\<lambda>q f. f(q \<mapsto> birth q)) (forked xs) f"

definition master_moves :: "(nat \<Rightarrow> worker) \<Rightarrow> master_event \<Rightarrow> system \<Rightarrow> system" where
  "master_moves birth e S =
     (let t = master_step e (parent S)
      in S\<lparr>parent := t, fleet := adopt birth (drop (length (outs (parent S))) (outs t)) (fleet S)\<rparr>)"

datatype sys_event =
    Master_event "nat \<Rightarrow> worker" master_event
  | Hear nat int
  | Take nat "config option" "int \<Rightarrow> int"
  | Act nat worker_event
  | Reap "nat \<Rightarrow> worker" nat nat
  | Killed "nat \<Rightarrow> worker" nat nat

fun sys_step :: "sys_event \<Rightarrow> system \<Rightarrow> system" where
  "sys_step (Master_event birth e) S = master_moves birth e S"
| "sys_step (Hear p now) S =
     (case pending_msgs p S of
        [] \<Rightarrow> S
      | m # ms \<Rightarrow> S\<lparr>parent := master_step (Worker_msg now m) (parent S),
                    heard := (heard S)(p := Suc (heard S p))\<rparr>)"
| "sys_step (Take p fl rnd) S =
     (case fleet S p of
        None \<Rightarrow> S
      | Some w \<Rightarrow>
          (case pending_requests p S of
             [] \<Rightarrow> S
           | r # rs \<Rightarrow> S\<lparr>fleet := (fleet S)(p \<mapsto> worker_step (Request fl rnd r) w),
                         taken := (taken S)(p := Suc (taken S p))\<rparr>))"
| "sys_step (Act p e) S =
     (case fleet S p of None \<Rightarrow> S | Some w \<Rightarrow> S\<lparr>fleet := (fleet S)(p \<mapsto> worker_step e w)\<rparr>)"
| "sys_step (Reap birth p q) S =
     (case fleet S p of
        None \<Rightarrow> S
      | Some w \<Rightarrow> master_moves birth (Worker_exit p (exited w) False q) (S\<lparr>fleet := (fleet S)(p := None)\<rparr>))"
| "sys_step (Killed birth p q) S =
     master_moves birth (Worker_exit p None False q) (S\<lparr>fleet := (fleet S)(p := None)\<rparr>)"

section \<open>The environment\<close>

text \<open>
  A new process gets an id that was never used and starts as \<open>boot_worker\<close> says, with a configuration of
  at least one parallel check.  The exit of a worker is reported after its messages; the messages of
  a worker that is killed are lost.
\<close>

definition newborn :: "nat \<Rightarrow> worker \<Rightarrow> bool" where
  "newborn q w \<longleftrightarrow> (\<exists>h c now rnd. NUM_TO_PROCESS c \<ge> 1 \<and> w = boot_worker q h c now rnd)"

definition nursery :: "(nat \<Rightarrow> worker) \<Rightarrow> bool" where
  "nursery birth \<longleftrightarrow> (\<forall>q. newborn q (birth q))"

definition unused :: "nat \<Rightarrow> system \<Rightarrow> bool" where
  "unused q S \<longleftrightarrow> q \<noteq> 0 \<and> q \<notin> used S"

fun of_worker :: "master_event \<Rightarrow> bool" where
  "of_worker (Worker_msg now m) = True"
| "of_worker (Worker_exit p code b q) = True"
| "of_worker e = False"

fun sys_ok :: "int \<Rightarrow> sys_event \<Rightarrow> system \<Rightarrow> bool" where
  "sys_ok N (Master_event birth e) S \<longleftrightarrow> nursery birth \<and> \<not> of_worker e \<and> master_ok N e (parent S) \<and>
     (case e of Count_timer fresh \<Rightarrow> inj fresh \<and> (\<forall>i. unused (fresh i) S) | _ \<Rightarrow> True)"
| "sys_ok N (Hear p now) S \<longleftrightarrow> pending_msgs p S \<noteq> []"
| "sys_ok N (Take p fl rnd) S \<longleftrightarrow> (case fleet S p of None \<Rightarrow> False | Some w \<Rightarrow> exited w = None) \<and>
     pending_requests p S \<noteq> [] \<and>
     (case fl of None \<Rightarrow> True | Some c \<Rightarrow> NUM_TO_PROCESS c \<ge> 1)"
| "sys_ok N (Act p e) S \<longleftrightarrow> (case fleet S p of None \<Rightarrow> False | Some w \<Rightarrow> worker_ok e w) \<and>
     (case e of Request fl rnd r \<Rightarrow> False | _ \<Rightarrow> True)"
| "sys_ok N (Reap birth p q) S \<longleftrightarrow> nursery birth \<and> unused q S \<and> pending_msgs p S = [] \<and>
     (case fleet S p of None \<Rightarrow> False | Some w \<Rightarrow> exited w \<noteq> None)"
| "sys_ok N (Killed birth p q) S \<longleftrightarrow> nursery birth \<and> unused q S \<and> fleet S p \<noteq> None"

definition boot_system :: "(nat \<Rightarrow> worker) \<Rightarrow> (nat \<Rightarrow> nat) \<Rightarrow> config \<Rightarrow> int \<Rightarrow> system" where
  "boot_system birth fresh c now =
     (let s = ensure_worker_count fresh True (boot_master c now)
      in \<lparr>parent = s, fleet = adopt birth (outs s) (\<lambda>p. None), taken = (\<lambda>p. 0), heard = (\<lambda>p. 0)\<rparr>)"

inductive system_reachable :: "int \<Rightarrow> system \<Rightarrow> bool" for N :: int where
  booting: "nursery birth \<Longrightarrow> inj fresh \<Longrightarrow> \<forall>i. fresh i \<noteq> 0 \<Longrightarrow> N \<le> NUM_OF_CHECKS c \<Longrightarrow>
    system_reachable N (boot_system birth fresh c now)"
| moving: "system_reachable N S \<Longrightarrow> sys_ok N e S \<Longrightarrow> system_reachable N (sys_step e S)"

section \<open>What an event of the master adds\<close>

fun reaped :: "master_event \<Rightarrow> nat set" where
  "reaped (Worker_exit p code b q) = {p}"
| "reaped e = {}"

text \<open>The ids an event may start processes under are not in \<open>U\<close>.\<close>

fun fresh_for :: "nat set \<Rightarrow> master_event \<Rightarrow> bool" where
  "fresh_for U (Worker_exit p code b q) \<longleftrightarrow> \<not> b \<and> p \<noteq> 0 \<and> q \<notin> U"
| "fresh_for U (Count_timer fresh) \<longleftrightarrow> inj fresh \<and> (\<forall>i. fresh i \<notin> U)"
| "fresh_for U e \<longleftrightarrow> True"

definition delta :: "nat set \<Rightarrow> nat set \<Rightarrow> master \<Rightarrow> master \<Rightarrow> out list \<Rightarrow> bool" where
  "delta U G s t xs \<longleftrightarrow> outs t = outs s @ xs \<and> pids t = (pids s - G) \<union> set (forked xs) \<and>
     set (forked xs) \<inter> U = {} \<and>
     (\<forall>p r. To_worker p r \<in> set xs \<longrightarrow> p \<in> pids s \<and> (\<forall>d. r = Queue_add d \<longrightarrow> fresh_payload d))"

lemma spawned_delta:
  assumes "spawned qs s t" and "pids t = (pids s - G) \<union> set qs" and "set qs \<inter> U = {}"
  shows "\<exists>xs. delta U G s t xs"
proof -
  obtain xs where xs: "outs t = outs s @ xs" "forked xs = qs" "\<forall>p. requests_to p xs = []"
    using assms(1) by (auto simp: spawned_def)
  have "To_worker p r \<notin> set xs" for p r
    using xs(3) requests_to_set [of r p xs] by simp
  with xs assms(2,3) show ?thesis by (auto simp: delta_def)
qed

lemma master_delta:
  assumes "master_reachable N s" and "master_ok N e s" and "fresh_for U e" and "pids s \<subseteq> U"
  shows "\<exists>xs. delta U (reaped e) s (master_step e s) xs"
proof -
  have inv: "pool_inv s" "sites_inv s"
    using reachable_parts [OF assms(1)] by simp_all
  consider (ends) p code q where "e = Worker_exit p code False q" "p \<noteq> 0" "q \<notin> U"
    | (counts) fresh where "e = Count_timer fresh"
    | (other) "\<not> spawns e" "reaped e = {}"
    using assms(3) by (cases e) auto
  then show ?thesis
  proof cases
    case ends
    then have "q \<noteq> 0" "q \<notin> pids s" using assms(2,4) by auto
    note x = exit_spawns [OF inv(1) ends(2) this, of code]
    have "\<exists>xs. delta U {p} s (worker_exit p code False q s) xs"
      by (rule spawned_delta [OF conjunct1 [OF x] conjunct2 [OF x]]) (use ends(3) in auto)
    then show ?thesis by (simp add: ends)
  next
    case counts
    then have "inj fresh" "\<forall>i. fresh i \<noteq> 0 \<and> fresh i \<notin> pids s" "\<forall>i. fresh i \<notin> U"
      using assms(2,3,4) by auto
    note x = ensure_spawns [OF inv(1) this(1,2), of False] and f = this(3)
    have "\<exists>xs. delta U {} s (ensure_worker_count fresh False s) xs"
      by (rule spawned_delta [OF conjunct1 [OF x]]) (use x f in auto)
    then show ?thesis by (simp add: counts)
  next
    case other
    obtain xs where xs: "outs (master_step e s) = outs s @ xs" "\<forall>x \<in> set xs. aimed s x"
        and p: "arrWorkers (master_step e s) = arrWorkers s"
      using tame_step [OF other(1), of s] unfolding tame_def by blast
    have "\<forall>x \<in> set xs. good_out s x"
      using accounted_step [OF inv assms(2)] xs(1) by (auto simp: accounted_def)
    moreover have "Fork p \<notin> set xs" for p using xs(2) by auto
    then have "forked xs = []" by (auto simp: forked_def split: out.split)
    ultimately show ?thesis
      using xs p other(2) unfolding delta_def by (intro exI [of _ xs]) (auto simp: pids_def)
  qed
qed

section \<open>The invariant\<close>

text \<open>The sites of the first \<open>k\<close> requests sent to a worker, by their addresses.\<close>

definition given :: "nat \<Rightarrow> nat \<Rightarrow> out list \<Rightarrow> string list" where
  "given k p xs = map monitor_url (concat (map sites_of (take k (requests_to p xs))))"

definition worker_part :: "nat \<Rightarrow> worker \<Rightarrow> nat \<Rightarrow> out list \<Rightarrow> bool" where
  "worker_part p w k xs \<longleftrightarrow> worker_reachable w \<and> honest w \<and> pid w = p \<and>
     k \<le> length (requests_to p xs) \<and> schedule w = given k p xs"

definition trace_part :: "master \<Rightarrow> bool" where
  "trace_part s \<longleftrightarrow> pids s \<subseteq> set (forked (outs s)) \<and>
     (\<forall>p r. To_worker p r \<in> set (outs s) \<longrightarrow> p \<in> set (forked (outs s)) \<and> (\<forall>d. r = Queue_add d \<longrightarrow> fresh_payload d))"

definition sys_inv :: "int \<Rightarrow> system \<Rightarrow> bool" where
  "sys_inv N S \<longleftrightarrow> master_reachable N (parent S) \<and> trace_part (parent S) \<and>
     dom (fleet S) = pids (parent S) \<and>
     (\<forall>p w. fleet S p = Some w \<longrightarrow> worker_part p w (taken S p) (outs (parent S))) \<and>
     (\<forall>p. p \<notin> used S \<longrightarrow> taken S p = 0)"

lemma adopt_at: "adopt birth xs f p = (if p \<in> set (forked xs) then Some (birth p) else f p)"
proof -
  have "fold (\<lambda>q f. f(q \<mapsto> birth q)) qs f p = (if p \<in> set qs then Some (birth p) else f p)" for qs
    by (induction qs arbitrary: f) auto
  then show ?thesis by (simp add: adopt_def)
qed

lemma worker_part_more:
  "worker_part p w k xs \<Longrightarrow> worker_part p w k (xs @ ys)"
  by (auto simp: worker_part_def given_def)

lemma newborn_part:
  assumes "newborn p w" and "requests_to p xs = []"
  shows "worker_part p w 0 xs"
  using assms worker_reachable.boot boot_honest boot_schedule
  by (auto simp: worker_part_def newborn_def given_def)

text \<open>An event of the master, seen from the whole system; workers in \<open>G\<close> have left it.\<close>

lemma trace_part_delta:
  assumes "trace_part s" and "delta (set (forked (outs s))) G s t xs"
  shows "trace_part t"
proof -
  have 1: "pids s \<subseteq> set (forked (outs s))"
      "\<And>p r. To_worker p r \<in> set (outs s) \<Longrightarrow> p \<in> set (forked (outs s)) \<and> (\<forall>d. r = Queue_add d \<longrightarrow> fresh_payload d)"
    using assms(1) unfolding trace_part_def by blast+
  have 2: "outs t = outs s @ xs" "pids t = (pids s - G) \<union> set (forked xs)"
      "\<And>p r. To_worker p r \<in> set xs \<Longrightarrow> p \<in> pids s \<and> (\<forall>d. r = Queue_add d \<longrightarrow> fresh_payload d)"
    using assms(2) unfolding delta_def by blast+
  have "To_worker p r \<in> set (outs t) \<Longrightarrow> p \<in> set (forked (outs t)) \<and> (\<forall>d. r = Queue_add d \<longrightarrow> fresh_payload d)" for p r
    using 1(1) 1(2) [of p r] 2(1) 2(3) [of p r] by auto
  moreover have "pids t \<subseteq> set (forked (outs t))" using 1(1) 2(1,2) by auto
  ultimately show ?thesis by (simp add: trace_part_def)
qed

lemma unsent: "trace_part s \<Longrightarrow> p \<notin> set (forked (outs s)) \<Longrightarrow> requests_to p (outs s) = []"
  by (rule no_requests) (auto simp: trace_part_def)

lemma sys_inv_master:
  assumes "sys_inv N S" and "delta (used S) G (parent S) t xs" and "master_reachable N t" and "nursery birth"
    and T: "parent T = t" "fleet T = adopt birth xs (\<lambda>p. if p \<in> G then None else fleet S p)" "taken T = taken S"
  shows "sys_inv N T"
proof -
  have s: "trace_part (parent S)" "dom (fleet S) = pids (parent S)"
      "\<And>p w. fleet S p = Some w \<Longrightarrow> worker_part p w (taken S p) (outs (parent S))"
      "\<And>p. p \<notin> used S \<Longrightarrow> taken S p = 0"
    using assms(1) unfolding sys_inv_def by blast+
  have x: "outs t = outs (parent S) @ xs" "pids t = (pids (parent S) - G) \<union> set (forked xs)"
      "set (forked xs) \<inter> used S = {}"
      "\<And>p r. To_worker p r \<in> set xs \<Longrightarrow> p \<in> pids (parent S)"
    using assms(2) unfolding delta_def by blast+
  have tr: "trace_part t" by (rule trace_part_delta [OF s(1) assms(2) [unfolded used_def]])
  have "worker_part p w (taken T p) (outs t)" if f: "fleet T p = Some w" for p w
  proof (cases "p \<in> set (forked xs)")
    case True
    then have u: "p \<notin> used S" using x(3) by blast
    then have "p \<notin> pids (parent S)" using s(1) by (auto simp: trace_part_def used_def)
    then have "requests_to p xs = []"
      using x(4) by (intro no_requests) blast
    then have "requests_to p (outs t) = []" using unsent [OF s(1)] u x(1) by (simp add: used_def)
    moreover have "newborn p w" using f True assms(4) by (auto simp: T(2) adopt_at nursery_def)
    ultimately show ?thesis using newborn_part u s(4) T(3) by simp
  next
    case False
    with f have "fleet S p = Some w" by (simp add: T(2) adopt_at split: if_splits)
    from worker_part_more [OF s(3) [OF this]] show ?thesis by (simp add: T(3) x(1))
  qed
  moreover have "dom (fleet T) = pids t"
    using s(2) x(2) by (auto simp: T(2) adopt_at dom_def split: if_splits)
  moreover have "taken T p = 0" if "p \<notin> used T" for p
    using s(4) that by (simp add: T(1,3) used_def x(1))
  ultimately show ?thesis using assms(3) tr by (simp add: sys_inv_def T(1))
qed

text \<open>A step of a worker, which may have read a request.\<close>

lemma sys_inv_worker:
  assumes "sys_inv N S" and "fleet S p = Some w" and "worker_ok e w"
    and "accepted e = concat (map sites_of rs)" and "take k (pending_requests p S) = rs" and "k = length rs"
    and T: "parent T = parent S" "fleet T = (fleet S)(p \<mapsto> worker_step e w)" "taken T = (taken S)(p := taken S p + k)"
  shows "sys_inv N T"
proof -
  have s: "master_reachable N (parent S)" "trace_part (parent S)" "dom (fleet S) = pids (parent S)"
      "\<And>p w. fleet S p = Some w \<Longrightarrow> worker_part p w (taken S p) (outs (parent S))"
      "\<And>p. p \<notin> used S \<Longrightarrow> taken S p = 0"
    using assms(1) unfolding sys_inv_def by blast+
  have w: "worker_reachable w" "honest w" "pid w = p" "taken S p \<le> length (requests_to p (outs (parent S)))"
      "schedule w = given (taken S p) p (outs (parent S))"
    using s(4) [OF assms(2)] by (simp_all add: worker_part_def)
  have "rs = take k (drop (taken S p) (requests_to p (outs (parent S))))"
    using assms(5) by (simp add: pending_requests_def)
  then have t: "take (taken S p + k) (requests_to p (outs (parent S))) =
      take (taken S p) (requests_to p (outs (parent S))) @ rs"
    by (simp add: take_add)
  have le: "taken S p + k \<le> length (requests_to p (outs (parent S)))"
  proof -
    have "k \<le> length (pending_requests p S)" using assms(5,6) by (metis length_take min.absorb_iff2 min.commute)
    then show ?thesis using w(4) by (simp add: pending_requests_def)
  qed
  have "schedule (worker_step e w) = schedule w @ map monitor_url (accepted e)"
    by (rule schedule_step [OF reachable_inv [OF w(1)] assms(3)])
  then have "schedule (worker_step e w) = given (taken S p + k) p (outs (parent S))"
    by (simp add: w(5) given_def t assms(4))
  then have part: "worker_part p (worker_step e w) (taken S p + k) (outs (parent S))"
    using w honest_step [OF reachable_inv [OF w(1)] w(2) assms(3)] worker_reachable.event [OF w(1) assms(3)] le
    by (simp add: worker_part_def)
  have "p \<in> used S"
    using s(2,3) assms(2) by (auto simp: trace_part_def used_def dom_def)
  with part s assms(2) show ?thesis
    by (auto simp: sys_inv_def T used_def)
qed

lemma sys_inv_moves:
  assumes "sys_inv N S" and "nursery birth" and "master_ok N e (parent S)" and "fresh_for (used S) e"
  shows "sys_inv N (master_moves birth e (S\<lparr>fleet := \<lambda>p. if p \<in> reaped e then None else fleet S p\<rparr>))"
proof -
  have m: "master_reachable N (parent S)" "pids (parent S) \<subseteq> used S"
    using assms(1) by (auto simp: sys_inv_def trace_part_def used_def)
  obtain xs where xs: "delta (used S) (reaped e) (parent S) (master_step e (parent S)) xs"
    using master_delta [OF m(1) assms(3,4) m(2)] by blast
  then have "drop (length (outs (parent S))) (outs (master_step e (parent S))) = xs"
    by (simp add: delta_def)
  with sys_inv_master [OF assms(1) xs master_reachable.event [OF m(1) assms(3)] assms(2)]
  show ?thesis by (simp add: master_moves_def Let_def)
qed

definition idle_birth :: "nat \<Rightarrow> worker" where
  "idle_birth q = boot_worker q [] sample_config 0 (\<lambda>x. 0)"

lemma idle_nursery: "nursery idle_birth"
proof -
  have "NUM_TO_PROCESS sample_config \<ge> 1" by (simp add: sample_config_def)
  then show ?thesis unfolding nursery_def newborn_def idle_birth_def by blast
qed

lemma pending_own:
  assumes "sys_inv N S" and "m \<in> set (pending_msgs p S)"
  shows "msg_ok m (parent S)" and "fleet S p \<noteq> None"
proof -
  obtain w where w: "fleet S p = Some w" "m \<in> set (posted w)"
    using assms(2) by (cases "fleet S p") (auto simp: pending_msgs_def dest: in_set_dropD)
  then show "fleet S p \<noteq> None" by simp
  have "own p m" using assms(1) w by (auto simp: sys_inv_def worker_part_def honest_def)
  moreover have "p \<in> pids (parent S)" using assms(1) w by (auto simp: sys_inv_def dom_def)
  ultimately show "msg_ok m (parent S)" by (cases m) simp_all
qed

lemma pending_fresh:
  assumes "sys_inv N S" and "r \<in> set (pending_requests p S)"
  shows "case r of Queue_add d \<Rightarrow> fresh_payload d | _ \<Rightarrow> True"
proof -
  have "To_worker p r \<in> set (outs (parent S))"
    using assms(2) requests_to_set by (auto simp: pending_requests_def dest: in_set_dropD)
  then show ?thesis using assms(1) by (auto simp: sys_inv_def trace_part_def split: worker_request.split)
qed

lemma sys_inv_step:
  assumes "sys_inv N S" and "sys_ok N e S"
  shows "sys_inv N (sys_step e S)"
proof (cases e)
  case (Master_event birth ev)
  have r: "reaped ev = {}" "fresh_for (used S) ev"
    using assms(2) Master_event by (cases ev; simp add: unused_def)+
  from sys_inv_moves [OF assms(1) _ _ r(2), of birth] r(1) assms(2) Master_event show ?thesis by simp
next
  case (Hear p now)
  then obtain m ms where m: "pending_msgs p S = m # ms"
    using assms(2) by (cases "pending_msgs p S") auto
  have ok: "master_ok N (Worker_msg now m) (parent S)" using pending_own(1) [OF assms(1), of m p] m by simp
  have mr: "master_reachable N (parent S)" "pids (parent S) \<subseteq> used S"
    using assms(1) by (auto simp: sys_inv_def trace_part_def used_def)
  obtain xs where xs: "delta (used S) {} (parent S) (master_step (Worker_msg now m) (parent S)) xs"
    using master_delta [OF mr(1) ok _ mr(2)] by auto
  have "forked xs = []"
    using xs tame_step [of "Worker_msg now m" "parent S"] by (auto simp: tame_def delta_def forked_def split: out.split)
  then have f: "fleet S = adopt idle_birth xs (\<lambda>p. if p \<in> {} then None else fleet S p)"
    by (simp add: adopt_def)
  show ?thesis
    using f m Hear
    by (intro sys_inv_master [OF assms(1) xs master_reachable.event [OF mr(1) ok] idle_nursery]) simp_all
next
  case (Take p fl rnd)
  then obtain w r rs where w: "fleet S p = Some w" "exited w = None" "pending_requests p S = r # rs"
    using assms(2) by (cases "pending_requests p S") (auto split: option.splits)
  have ok: "worker_ok (Request fl rnd r) w"
    using pending_fresh [OF assms(1), of r p] w assms(2) Take by (simp split: worker_request.splits)
  have a: "accepted (Request fl rnd r) = concat (map sites_of [r])" by (cases r) simp_all
  show ?thesis
    by (rule sys_inv_worker [OF assms(1) w(1) ok a, where k = 1]) (use Take w in simp_all)
next
  case (Act p ev)
  then obtain w where w: "fleet S p = Some w" "worker_ok ev w"
    using assms(2) by (auto split: option.splits)
  have "accepted ev = concat (map sites_of [])" using assms(2) Act by (cases ev) simp_all
  then show ?thesis
    using Act w by (intro sys_inv_worker [OF assms(1) w, of "[]" 0]) simp_all
next
  case (Reap birth p q)
  then obtain w where w: "fleet S p = Some w" using assms(2) by (auto split: option.splits)
  then have "p \<noteq> 0" using assms(1) reachable_parts
    by (fastforce simp: sys_inv_def dom_def pool_inv_def)
  then show ?thesis
    using sys_inv_moves [OF assms(1), of birth "Worker_exit p (exited w) False q"] assms(2) w Reap
    by (simp add: unused_def fun_upd_def)
next
  case (Killed birth p q)
  then have "p \<noteq> 0" using assms reachable_parts
    by (fastforce simp: sys_inv_def dom_def pool_inv_def)
  then show ?thesis
    using sys_inv_moves [OF assms(1), of birth "Worker_exit p None False q"] assms(2) Killed
    by (simp add: unused_def fun_upd_def)
qed

lemma sys_inv_boot:
  assumes "nursery birth" and "inj fresh" and "\<forall>i. fresh i \<noteq> 0" and "N \<le> NUM_OF_CHECKS c"
  shows "sys_inv N (boot_system birth fresh c now)"
proof -
  define s0 where "s0 = boot_master c now"
  define t where "t = ensure_worker_count fresh True s0"
  have s0: "pool_inv s0" "pids s0 = {}" "outs s0 = []"
    by (simp_all add: s0_def boot_master_def pool_inv_def pids_def)
  define qs where "qs = map fresh [0 ..< nat (NUM_WORKERS (conf s0) - int (length (arrWorkers s0)))]"
  have x: "spawned qs s0 t \<and> pids t = pids s0 \<union> set qs"
    unfolding qs_def t_def by (rule ensure_spawns) (use assms(2,3) s0 in auto)
  obtain xs where xs: "outs t = xs" "forked xs = qs" "\<forall>p. requests_to p xs = []"
    using x s0(3) by (auto simp: spawned_def)
  have none: "To_worker p r \<notin> set xs" for p r
    using xs(3) requests_to_set [of r p xs] by simp
  have reach: "master_reachable N t"
    by (rule master_reachable.start) (use assms(3,4) in \<open>auto simp: master_init_def t_def s0_def\<close>)
  have S: "boot_system birth fresh c now =
      \<lparr>parent = t, fleet = adopt birth xs (\<lambda>p. None), taken = (\<lambda>p. 0), heard = (\<lambda>p. 0)\<rparr>"
    by (simp add: boot_system_def t_def s0_def xs(1) Let_def flip: xs(1))
  have "worker_part p w 0 xs" if "adopt birth xs (\<lambda>p. None) p = Some w" for p w
    using that assms(1) xs(3) by (intro newborn_part) (auto simp: adopt_at nursery_def split: if_splits)
  moreover have "dom (adopt birth xs (\<lambda>p. None)) = pids t"
    using x s0(2) xs(2) by (auto simp: adopt_at dom_def)
  moreover have "trace_part t"
    using x s0(2) xs(1,2) none by (simp add: trace_part_def)
  ultimately show ?thesis using reach xs(1) by (simp add: S sys_inv_def)
qed

interpretation sy: transition_system
    "\<lambda>S. \<exists>birth fresh c now. nursery birth \<and> inj fresh \<and> (\<forall>i. fresh i \<noteq> 0) \<and> N \<le> NUM_OF_CHECKS c \<and>
       S = boot_system birth fresh c now"
    sys_step "sys_ok N" "sys_inv N"
  for N :: int
  by unfold_locales (auto intro: sys_inv_boot sys_inv_step)

lemma system_reachable_inv: "system_reachable N S \<Longrightarrow> sys_inv N S"
  by (induction rule: system_reachable.induct) (auto intro: sys_inv_boot sys_inv_step)

end
