(* ===== verification/Emissions.thy ===== *)
theory Emissions
  imports Master_Properties
begin

text \<open>
  Whom each event of the master reaches: the receivers of what a handler emits.  The table at the end
  is checked for every state, whatever process id or site an event carries.
\<close>

section \<open>Receivers\<close>

datatype channel =
    Workers
  | Processes
  | Metrics
  | Sql
  | Wpcom_api
  | Verifliers
  | Clock
  | Files
  | Terminal

fun channel_of :: "out \<Rightarrow> channel" where
  "channel_of (To_worker p r) = Workers"
| "channel_of (Fork p) = Processes"
| "channel_of (Disconnect p) = Processes"
| "channel_of (Stat c) = Metrics"
| "channel_of (Db_call c) = Sql"
| "channel_of (Notify n) = Wpcom_api"
| "channel_of (Ask_veriflier v b) = Verifliers"
| "channel_of (Set_timer t k) = Clock"
| "channel_of (Open_file j) = Files"
| "channel_of (Write_file f l) = Files"
| "channel_of (Console l) = Terminal"
| "channel_of (Exit n) = Processes"

definition emits :: "channel set \<Rightarrow> master \<Rightarrow> master \<Rightarrow> bool" where
  "emits K s t \<longleftrightarrow> (\<exists>xs. outs t = outs s @ xs \<and> channel_of ` set xs \<subseteq> K)"

lemma emits_trans:
  assumes "emits K s t" and "emits K t u"
  shows "emits K s u"
proof -
  obtain xs ys where "outs t = outs s @ xs" "channel_of ` set xs \<subseteq> K" "outs u = outs t @ ys" "channel_of ` set ys \<subseteq> K"
    using assms by (auto simp: emits_def)
  then have "outs u = outs s @ (xs @ ys) \<and> channel_of ` set (xs @ ys) \<subseteq> K" by auto
  then show ?thesis unfolding emits_def by blast
qed

lemma emits_refl [simp]: "emits K s s"
  by (simp add: emits_def)

lemma emits_preorder: "preorder_rel (emits K)"
  by (blast intro: preorder_relI emits_trans emits_refl)

lemmas emits_fold = fold_closed [OF emits_preorder]

lemma emits_mono: "emits K s t \<Longrightarrow> K \<subseteq> L \<Longrightarrow> emits L s t"
  by (auto simp: emits_def)

lemma emits_add:
  "emits K s t \<Longrightarrow> outs u = outs t @ xs \<Longrightarrow> channel_of ` set xs \<subseteq> K \<Longrightarrow> emits K s u"
  by (rule emits_trans) (auto simp: emits_def)

text \<open>Only the trace counts; the effects add to it.\<close>

lemma emits_cong: "outs t = outs u \<Longrightarrow> emits K s t \<longleftrightarrow> emits K s u"
  by (simp add: emits_def)

lemma emits_fields [simp]:
  "emits K s (t\<lparr>conf := a1\<rparr>) \<longleftrightarrow> emits K s t" "emits K s (t\<lparr>database := a2\<rparr>) \<longleftrightarrow> emits K s t"
  "emits K s (t\<lparr>gCountSuccess := a3\<rparr>) \<longleftrightarrow> emits K s t" "emits K s (t\<lparr>gCountError := a4\<rparr>) \<longleftrightarrow> emits K s t"
  "emits K s (t\<lparr>gCountOffline := a5\<rparr>) \<longleftrightarrow> emits K s t" "emits K s (t\<lparr>startTime := a6\<rparr>) \<longleftrightarrow> emits K s t"
  "emits K s (t\<lparr>sitesCount := a7\<rparr>) \<longleftrightarrow> emits K s t" "emits K s (t\<lparr>arrObjects := a8\<rparr>) \<longleftrightarrow> emits K s t"
  "emits K s (t\<lparr>localRetries := a9\<rparr>) \<longleftrightarrow> emits K s t" "emits K s (t\<lparr>freeWorkers := b1\<rparr>) \<longleftrightarrow> emits K s t"
  "emits K s (t\<lparr>haltedWorkers := b2\<rparr>) \<longleftrightarrow> emits K s t" "emits K s (t\<lparr>arrWorkers := b3\<rparr>) \<longleftrightarrow> emits K s t"
  "emits K s (t\<lparr>workerStats := b4\<rparr>) \<longleftrightarrow> emits K s t" "emits K s (t\<lparr>checkStats := b5\<rparr>) \<longleftrightarrow> emits K s t"
  "emits K s (t\<lparr>gettingSites := b6\<rparr>) \<longleftrightarrow> emits K s t" "emits K s (t\<lparr>inRound := b7\<rparr>) \<longleftrightarrow> emits K s t"
  "emits K s (t\<lparr>endOfRound := b8\<rparr>) \<longleftrightarrow> emits K s t" "emits K s (t\<lparr>roundSitesCount := b9\<rparr>) \<longleftrightarrow> emits K s t"
  "emits K s (t\<lparr>queuedRetries := c1\<rparr>) \<longleftrightarrow> emits K s t" "emits K s (t\<lparr>retryCount := c2\<rparr>) \<longleftrightarrow> emits K s t"
  "emits K s (t\<lparr>openNotices := c3\<rparr>) \<longleftrightarrow> emits K s t" "emits K s (t\<lparr>queriesDue := c4\<rparr>) \<longleftrightarrow> emits K s t"
  "emits K s (t\<lparr>roundTimers := c5\<rparr>) \<longleftrightarrow> emits K s t" "emits K s (t\<lparr>restartTimers := c6\<rparr>) \<longleftrightarrow> emits K s t"
  by (rule emits_cong; simp)+

lemma outs_emit_stats: "outs (emit_stats cs s) = outs s @ map Stat cs"
  by (simp add: emit_stats_def)

lemma emits_effects [simp]:
  "channel_of x \<in> K \<Longrightarrow> emits K s t \<Longrightarrow> emits K s (emit x t)"
  "Metrics \<in> K \<Longrightarrow> emits K s t \<Longrightarrow> emits K s (increment m v t)"
  "Metrics \<in> K \<Longrightarrow> emits K s t \<Longrightarrow> emits K s (timing m v t)"
  "Sql \<in> K \<Longrightarrow> emits K s t \<Longrightarrow> emits K s (emit_calls calls t)"
  "Metrics \<in> K \<Longrightarrow> emits K s t \<Longrightarrow> emits K s (emit_stats cs t)"
  by (erule emits_add [OF _ outs_emit(1)] emits_add [OF _ outs_emit(3)] emits_add [OF _ outs_emit(4)]
      emits_add [OF _ outs_emit(2)] emits_add [OF _ outs_emit_stats], force)+

lemma emits_notify [simp]:
  "{Sql, Wpcom_api} \<subseteq> K \<Longrightarrow> emits K s t \<Longrightarrow> emits K s (notify srv st t)"
  by (auto simp: notify_def Let_def split: prod.split)

lemma emits_announce [simp]:
  "{Sql, Wpcom_api} \<subseteq> K \<Longrightarrow> emits K s t \<Longrightarrow> emits K s (announce k srv st t)"
  by (simp add: announce_def)

lemma emits_notify_again [simp]:
  "{Sql, Wpcom_api} \<subseteq> K \<Longrightarrow> emits K s t \<Longrightarrow> emits K s (notify_again i t)"
  by (simp add: notify_again_def Let_def)

text \<open>The state before the event, less what was due.\<close>

lemma emits_due [simp]:
  "emits K (s\<lparr>queriesDue := n\<rparr>) t \<longleftrightarrow> emits K s t"
  by (simp add: emits_def)

section \<open>The operations\<close>

lemma emits_getMoreSites [simp]:
  "{Metrics, Sql, Clock} \<subseteq> K \<Longrightarrow> emits K s t \<Longrightarrow> emits K s (getMoreSites now t)"
  by (auto simp: getMoreSites_def Let_def split: prod.split)

lemma emits_maybeEndRound [simp]:
  "Metrics \<in> K \<Longrightarrow> emits K s t \<Longrightarrow> emits K s (maybeEndRound now t)"
  by (auto simp: maybeEndRound_def Let_def)

lemma emits_deleteWorker [simp]:
  "Metrics \<in> K \<Longrightarrow> emits K s t \<Longrightarrow> emits K s (deleteWorker p t)"
  by (auto simp: deleteWorker_def Let_def)

lemma emits_spawnWorker [simp]:
  "{Metrics, Processes} \<subseteq> K \<Longrightarrow> emits K s t \<Longrightarrow> emits K s (spawnWorker p t)"
  by (auto simp: spawnWorker_def Let_def)

lemma emits_worker_exit: "emits {Metrics, Processes} s (worker_exit p code e q s)"
  by (simp add: worker_exit_def Let_def split: prod.split)

lemma emits_ensure: "emits {Metrics, Processes} s (ensure_worker_count fresh b s)"
proof -
  have "emits {Metrics, Processes} s (fold spawnWorker qs t)" if "emits {Metrics, Processes} s t" for qs t
    using emits_trans [OF that emits_fold [of qs _ spawnWorker]] by simp
  then show ?thesis by (auto simp: ensure_worker_count_def Let_def)
qed

lemma emits_assign [simp]:
  "Workers \<in> K \<Longrightarrow> emits K s t \<Longrightarrow> emits K s (assign_work_to_worker p sz t)"
  by (auto simp: assign_work_to_worker_def get_work_dataset_def Let_def split: option.split prod.split)

lemma emits_send_work [simp]:
  "{Workers, Metrics, Sql, Clock} \<subseteq> K \<Longrightarrow> emits K s t \<Longrightarrow> emits K s (send_work now p t)"
  by (auto simp: send_work_def Let_def split: option.split)

lemma emits_ask_each [simp]:
  "{Workers, Metrics, Sql, Clock} \<subseteq> K \<Longrightarrow> emits K s t \<Longrightarrow> emits K s (ask_each now ps t)"
  by (induction ps arbitrary: t) auto

lemma emits_freeWorkersToWork [simp]:
  "{Workers, Metrics, Sql, Clock} \<subseteq> K \<Longrightarrow> emits K s t \<Longrightarrow> emits K s (freeWorkersToWork now t)"
  by (auto simp: freeWorkersToWork_def)

lemma emits_batch: "emits {Workers, Metrics, Sql, Clock} s (batch_result now begun res s)"
  by (auto simp: batch_result_def batch_rows_def Let_def split: prod.split option.split)

lemma emits_worker_stats: "emits {Workers, Metrics} s (worker_stats p rep cs s)"
  by (auto simp: worker_stats_def Let_def)

lemma emits_checkHostStatus: "emits {Sql, Wpcom_api} s (fst (checkHostStatus h d now s))"
  by (auto simp: checkHostStatus_def Let_def split: prod.split sum.split option.split)

lemma emits_ssl: "emits {Sql, Wpcom_api} s (sslWorkerCallBack now m s)"
  by (cases m) (auto intro: emits_checkHostStatus check_each_closed [OF emits_preorder])

lemma emits_updateStats: "emits {Metrics, Clock, Files} s (updateStats now rss s)"
  by (auto simp: updateStats_def restart_if_late_def resetVariables_def Let_def)

lemma emits_file_opened: "emits {Files} s (file_opened j s)"
  by (auto simp: emits_def file_opened_def)

lemma emits_reload: "emits {Workers, Metrics} s (reload_signal fl s)"
proof -
  have "emits {Workers, Metrics} s (fold (\<lambda>w. emit (To_worker (proc_pid w) Config_update)) ws t)"
    if "emits {Workers, Metrics} s t" for ws :: "proc list" and t
    by (rule emits_trans [OF that emits_fold]) auto
  then show ?thesis by (auto simp: reload_signal_def Let_def split: option.split)
qed

section \<open>The tick\<close>

lemma emits_local_loop: "local_loop now k b s = (b', t) \<Longrightarrow> emits {Workers} s t"
proof (induction k arbitrary: b s)
  case (Suc k)
  have d: "emits {Workers} s (direct k i s)" "emits {Workers} s (requeue k s)" for i
    by (auto simp: direct_def requeue_def)
  from Suc.prems show ?case
    unfolding local_loop_Suc
    by (auto split: if_splits option.splits dest!: Suc.IH intro: emits_trans [OF d(1)] emits_trans [OF d(2)])
qed simp

lemma emits_local_tick: "emits {Workers, Metrics, Sql, Clock} s (local_tick now s)"
proof -
  obtain b t where t: "local_loop now (length (localRetries s)) False s = (b, t)" by (metis surj_pair)
  have "emits {Workers, Metrics, Sql, Clock} s t" by (rule emits_mono [OF emits_local_loop [OF t]]) simp
  with t show ?thesis by (auto simp: local_tick_def)
qed

lemma emits_remote_tick: "remote_tick now s = Some t \<Longrightarrow> emits {Verifliers} s t"
proof -
  have "emits {Verifliers} u (ask_verifliers b u)" for b u
    unfolding ask_verifliers_def by (rule emits_fold) auto
  then have "emits {Verifliers} s (fold ask_verifliers bs (s\<lparr>queuedRetries := q\<rparr>))" for bs q
    using emits_trans [OF _ emits_fold [of bs _ ask_verifliers], of "{Verifliers}" s "s\<lparr>queuedRetries := q\<rparr>"] by simp
  then show "remote_tick now s = Some t \<Longrightarrow> emits {Verifliers} s t"
    by (auto simp: remote_tick_def Let_def split: prod.splits option.splits)
qed

lemma emits_tick:
  assumes "processQueuedRetries now s = Some t"
  shows "emits {Verifliers, Workers, Metrics, Sql, Clock} s t"
proof -
  obtain u where u: "remote_tick now s = Some u" "t = local_tick now u"
    using assms by (auto simp: processQueuedRetries_def)
  show ?thesis unfolding u(2)
    by (rule emits_trans [OF emits_mono [OF emits_remote_tick [OF u(1)]] emits_mono [OF emits_local_tick]]) auto
qed

section \<open>The table\<close>

fun reach_of_msg :: "worker_msg \<Rightarrow> channel set" where
  "reach_of_msg (Totals t) = {}"
| "reach_of_msg (Notify_still_down sv) = {Sql, Wpcom_api}"
| "reach_of_msg (Notify_status_change sv) = {Sql, Wpcom_api}"
| "reach_of_msg (Stop_work p) = {Metrics}"
| "reach_of_msg (Send_work p) = {Workers, Metrics, Sql, Clock}"
| "reach_of_msg (Recheck sv) = {}"
| "reach_of_msg (Stats p rep cs) = {Workers, Metrics}"
| "reach_of_msg (Unknown_request p) = {}"

fun reach :: "master_event \<Rightarrow> channel set" where
  "reach (Worker_msg now m) = reach_of_msg m"
| "reach (Worker_exit p code e q) = {Metrics, Processes}"
| "reach (Count_timer fresh) = {Metrics, Processes}"
| "reach (Ssl_msg now m) = {Sql, Wpcom_api}"
| "reach (Tick now) = {Verifliers, Workers, Metrics, Sql, Clock}"
| "reach (Stats_tick now rss) = {Metrics, Clock, Files}"
| "reach (Round_timer now) = {Metrics, Sql, Clock}"
| "reach (Restart_timer now) = {Metrics, Sql, Clock}"
| "reach (Batch now begun res) = {Workers, Metrics, Sql, Clock}"
| "reach (Wpcom_failed i) = {Sql, Wpcom_api}"
| "reach (Reload fl) = {Workers, Metrics}"
| "reach (Db_updated b) = {}"
| "reach (File_opened j) = {Files}"

lemma emits_msg: "emits (reach_of_msg m) s (workerMsgCallback now m s)"
  by (cases m)
    (auto simp: count_totals_def stop_work_def recheck_def add_server_to_local_retries_def
      host_check_request_def Let_def intro: emits_worker_stats)

lemma emits_step: "emits (reach e) s (master_step e s)"
proof (cases e)
  case (Tick now)
  then show ?thesis by (auto split: option.split intro: emits_tick)
next
  case (Batch now begun res)
  then show ?thesis using emits_batch [of "s\<lparr>queriesDue := queriesDue s - 1\<rparr>"] by simp
qed (auto simp: next_round_timer_def resetVariables_def intro: emits_msg emits_worker_exit emits_ensure
  emits_ssl emits_updateStats emits_batch emits_reload emits_file_opened)

text \<open>
  An event has no effect outside its row of the table.  So a site that a worker sends back reaches nobody
  by itself, WPCOM hears of a site only after a message of a worker or a veriflier or when an earlier
  notice failed, the verifliers are asked by the tick alone, and processes are started only after an
  exit and by the timer that counts them.
\<close>

lemma reached: "x \<in> set (effects e s) \<Longrightarrow> channel_of x \<in> reach e"
  using emits_step [of e s] unfolding emits_def effects_def by (metis append_eq_conv_conj image_subset_iff)

end
