(* ===== verification/Handshake.thy ===== *)
theory Handshake
  imports System Emissions
begin

text \<open>
  The handshake between the master and a worker over work: a worker that has asked for work is waiting
  in one of the master's lists or an answer is under way to it.  First the master's side, for each
  handler; then the worker's; then both over their channels.
\<close>

section \<open>The master does not forget who waits\<close>

definition waits :: "nat \<Rightarrow> master \<Rightarrow> bool" where
  "waits p s \<longleftrightarrow> p \<in> set (freeWorkers s) \<or> p \<in> set (haltedWorkers s)"

text \<open>A request that ends the waiting.\<close>

fun wakes :: "worker_request \<Rightarrow> bool" where
  "wakes (Queue_add d) = True"
| "wakes Evaporate = True"
| "wakes r = False"

definition woken :: "nat \<Rightarrow> out list \<Rightarrow> bool" where
  "woken p xs \<longleftrightarrow> (\<exists>r. To_worker p r \<in> set xs \<and> wakes r)"

lemma woken_append [simp]: "woken p (xs @ ys) \<longleftrightarrow> woken p xs \<or> woken p ys"
  by (auto simp: woken_def)

definition answered_to :: "nat \<Rightarrow> master \<Rightarrow> master \<Rightarrow> bool" where
  "answered_to p s t \<longleftrightarrow> (\<exists>xs. outs t = outs s @ xs \<and> (waits p t \<or> woken p xs))"

definition unforgotten :: "nat \<Rightarrow> master \<Rightarrow> master \<Rightarrow> bool" where
  "unforgotten p s t \<longleftrightarrow> (p \<in> set (haltedWorkers t) \<longrightarrow> p \<in> set (haltedWorkers s)) \<and>
     (\<exists>xs. outs t = outs s @ xs \<and> (waits p s \<longrightarrow> waits p t \<or> woken p xs))"

lemma unforgotten_trans:
  assumes "unforgotten p s t" and "unforgotten p t u"
  shows "unforgotten p s u"
proof -
  obtain xs ys where "outs t = outs s @ xs" "waits p s \<longrightarrow> waits p t \<or> woken p xs"
      "outs u = outs t @ ys" "waits p t \<longrightarrow> waits p u \<or> woken p ys"
    using assms by (auto simp: unforgotten_def)
  then have "outs u = outs s @ (xs @ ys) \<and> (waits p s \<longrightarrow> waits p u \<or> woken p (xs @ ys))" by auto
  then have "\<exists>zs. outs u = outs s @ zs \<and> (waits p s \<longrightarrow> waits p u \<or> woken p zs)" by blast
  with assms show ?thesis by (simp add: unforgotten_def)
qed

lemma unforgotten_refl [simp]: "unforgotten p s s"
  by (simp add: unforgotten_def)

lemma unforgotten_preorder: "preorder_rel (unforgotten p)"
  by (blast intro: preorder_relI unforgotten_trans unforgotten_refl)

lemma answered_kept:
  assumes "answered_to p s t" and "unforgotten p t u"
  shows "answered_to p s u"
proof -
  obtain xs ys where "outs t = outs s @ xs" "waits p t \<or> woken p xs"
      "outs u = outs t @ ys" "waits p t \<longrightarrow> waits p u \<or> woken p ys"
    using assms by (auto simp: unforgotten_def answered_to_def)
  then have "outs u = outs s @ (xs @ ys) \<and> (waits p u \<or> woken p (xs @ ys))" by auto
  then show ?thesis unfolding answered_to_def by blast
qed

lemma kept_answered:
  assumes "unforgotten p s t" and "answered_to p t u"
  shows "answered_to p s u"
proof -
  obtain xs ys where "outs t = outs s @ xs" "outs u = outs t @ ys" "waits p u \<or> woken p ys"
    using assms by (auto simp: unforgotten_def answered_to_def)
  then have "outs u = outs s @ (xs @ ys) \<and> (waits p u \<or> woken p (xs @ ys))" by auto
  then show ?thesis unfolding answered_to_def by blast
qed

text \<open>Effects that leave the lists alone.\<close>

definition same_lists :: "master \<Rightarrow> master \<Rightarrow> bool" where
  "same_lists s t \<longleftrightarrow> freeWorkers t = freeWorkers s \<and> haltedWorkers t = haltedWorkers s"

lemma unforgotten_lists: "same_lists s t \<Longrightarrow> emits K s t \<Longrightarrow> unforgotten p s t"
  by (auto simp: unforgotten_def same_lists_def waits_def emits_def)

lemma same_pool_lists: "same_pool s t \<Longrightarrow> same_lists s t"
  by (simp add: same_pool_def same_lists_def)

lemma unforgotten_assign [simp]: "unforgotten p s (assign_work_to_worker q sz s)"
  by (rule unforgotten_lists [of _ _ "{Workers}"]) (simp_all add: same_lists_def assign_fields)

lemma send_work_surplus:
  assumes "int (length (arrWorkers s)) > NUM_WORKERS (conf s)"
  shows "send_work now q s = (if getWorker q s = None then s else emit (To_worker q Evaporate) s)"
  using assms getWorker_pid [of q s] by (auto simp: send_work_def split: option.split)

lemma unforgotten_push:
  "unforgotten p s (if q \<notin> set (haltedWorkers s) \<and> q \<notin> set (freeWorkers s)
     then s\<lparr>freeWorkers := freeWorkers s @ [q]\<rparr> else s)"
  by (auto simp: unforgotten_def waits_def)

lemma waits_push:
  "waits q (if q \<notin> set (haltedWorkers s) \<and> q \<notin> set (freeWorkers s)
     then s\<lparr>freeWorkers := freeWorkers s @ [q]\<rparr> else s)"
  by (simp add: waits_def)

lemma send_work_waits:
  assumes "\<not> int (length (arrWorkers s)) > NUM_WORKERS (conf s)" and "arrObjects s = []"
  shows "unforgotten p s (send_work now q s)" and "waits q (send_work now q s)"
proof -
  define u where "u = (if q \<notin> set (haltedWorkers s) \<and> q \<notin> set (freeWorkers s)
     then s\<lparr>freeWorkers := freeWorkers s @ [q]\<rparr> else s)"
  have u: "same_lists u (send_work now q s)"
    using same_pool_lists [OF send_work_idle [OF assms]] by (simp add: u_def)
  then show "waits q (send_work now q s)"
    using waits_push [of q s, folded u_def] by (simp add: same_lists_def waits_def)
  have "emits {Workers, Metrics, Sql, Clock} s (send_work now q s)" by simp
  then have "emits {Workers, Metrics, Sql, Clock} u (send_work now q s)" by (simp add: emits_def u_def)
  from unforgotten_trans [OF unforgotten_push unforgotten_lists [OF u [unfolded u_def] this [unfolded u_def]]]
  show "unforgotten p s (send_work now q s)" .
qed

lemma unforgotten_send_work [simp]: "unforgotten p s (send_work now q s)"
proof -
  consider (surplus) "int (length (arrWorkers s)) > NUM_WORKERS (conf s)"
    | (idle) "\<not> int (length (arrWorkers s)) > NUM_WORKERS (conf s)" "arrObjects s = []"
    | (work) "\<not> int (length (arrWorkers s)) > NUM_WORKERS (conf s)" "arrObjects s \<noteq> []"
    by blast
  then show ?thesis
  proof cases
    case surplus
    then show ?thesis
      by (simp add: send_work_surplus) (simp add: unforgotten_def waits_def)
  next
    case work
    then show ?thesis by (simp add: send_work_def)
  qed (rule send_work_waits(1))
qed

text \<open>With a DATASET_SIZE of at least one, a known worker that asks is answered.\<close>

lemma assign_answers:
  assumes "getWorker q s \<noteq> None" and "1 \<le> DATASET_SIZE (conf s)" and "arrObjects s \<noteq> []"
  shows "answered_to q s (assign_work_to_worker q None s)"
proof -
  obtain w where w: "getWorker q s = Some w" "proc_pid w = q"
    using assms(1) getWorker_pid by blast
  have "\<not> min (int (length (arrObjects s))) (DATASET_SIZE (conf s)) \<le> 0"
    using assms(2,3) by (simp add: min_def)
  then show ?thesis
    using w assms(3)
    by (auto simp: assign_work_to_worker_def get_work_dataset_def dataset_size_def splice_at_def Let_def
        answered_to_def waits_def woken_def intro: exI [of _ "Queue_add d" for d])
qed

lemma send_work_answers:
  assumes "getWorker q s \<noteq> None" and "1 \<le> DATASET_SIZE (conf s)"
  shows "answered_to q s (send_work now q s)"
proof -
  consider (surplus) "int (length (arrWorkers s)) > NUM_WORKERS (conf s)"
    | (idle) "\<not> int (length (arrWorkers s)) > NUM_WORKERS (conf s)" "arrObjects s = []"
    | (work) "\<not> int (length (arrWorkers s)) > NUM_WORKERS (conf s)" "arrObjects s \<noteq> []"
    by blast
  then show ?thesis
  proof cases
    case surplus
    have "woken q [To_worker q Evaporate]" by (auto simp: woken_def)
    with surplus assms(1) show ?thesis
      by (simp add: send_work_surplus answered_to_def del: not_None_eq)
  next
    case idle
    have "unforgotten q s (send_work now q s)" by simp
    with send_work_waits(2) [OF idle] show ?thesis by (auto simp: answered_to_def unforgotten_def)
  next
    case work
    with assign_answers [OF assms] show ?thesis by (simp add: send_work_def)
  qed
qed

lemma unforgotten_ask_each [simp]: "unforgotten p s (ask_each now qs s)"
proof (induction qs arbitrary: s)
  case (Cons q qs)
  have "unforgotten p s (if getWorker q s \<noteq> None then send_work now q s else s)" by simp
  from unforgotten_trans [OF this Cons.IH] show ?case by simp
qed simp

lemma conf_send_work [simp]: "conf (send_work now q s) = conf s"
  using same_retries_send_work [of s now q] by (simp add: same_retries_def)

lemma getWorker_cong: "arrWorkers t = arrWorkers s \<Longrightarrow> getWorker p t = getWorker p s"
  by (simp add: getWorker_def)

lemma getWorker_send_work: "getWorker p (send_work now q s) = getWorker p s"
  by (simp add: getWorker_def send_work_frame)

lemma ask_each_answers:
  assumes "q \<in> set qs" and "\<forall>q \<in> set qs. getWorker q s \<noteq> None" and "1 \<le> DATASET_SIZE (conf s)"
  shows "answered_to q s (ask_each now qs s)"
  using assms
proof (induction qs arbitrary: s)
  case (Cons r qs)
  define u where "u = send_work now r s"
  have s: "ask_each now (r # qs) s = ask_each now qs u" using Cons.prems(2) by (simp add: u_def)
  have u: "\<forall>q \<in> set qs. getWorker q u \<noteq> None" "1 \<le> DATASET_SIZE (conf u)"
    using Cons.prems(2,3) by (simp_all add: u_def getWorker_send_work)
  show ?case
  proof (cases "q = r")
    case True
    with Cons.prems have "answered_to q s u" by (simp add: u_def send_work_answers)
    from answered_kept [OF this unforgotten_ask_each] show ?thesis unfolding s .
  next
    case False
    with Cons.prems(1) have q: "q \<in> set qs" by simp
    have "unforgotten q s u" by (simp add: u_def)
    from kept_answered [OF this Cons.IH [OF q u]] show ?thesis unfolding s .
  qed
qed simp

lemma unforgotten_freeWorkersToWork:
  assumes "\<forall>q \<in> set (freeWorkers s). getWorker q s \<noteq> None" and "1 \<le> DATASET_SIZE (conf s)"
  shows "unforgotten p s (freeWorkersToWork now s)"
proof (cases "arrObjects s = []")
  case True
  then show ?thesis by (simp add: freeWorkersToWork_def)
next
  case False
  define u where "u = s\<lparr>freeWorkers := []\<rparr>"
  have t: "freeWorkersToWork now s = ask_each now (freeWorkers s) u"
    using False by (simp add: freeWorkersToWork_def u_def)
  have g: "getWorker q u = getWorker q s" for q by (simp add: u_def getWorker_def)
  have k: "unforgotten p u (ask_each now (freeWorkers s) u)" by simp
  have "answered_to p u (ask_each now (freeWorkers s) u)" if "p \<in> set (freeWorkers s)"
    by (rule ask_each_answers [OF that]) (use assms g in \<open>simp_all add: u_def\<close>)
  with k show ?thesis
    by (auto simp: t unforgotten_def answered_to_def) (auto simp: u_def waits_def)
qed

lemma waiting_known: "pool_ok s \<Longrightarrow> \<forall>q \<in> set (freeWorkers s). getWorker q s \<noteq> None"
  using getWorker_known by (auto simp: pool_ok_def known_free_def simp del: not_None_eq)

lemma unforgotten_deleteWorker:
  assumes "pool_inv s" and "p \<noteq> r"
  shows "unforgotten p s (deleteWorker r s)"
proof (cases "r = 0")
  case False
  have d: "distinct (map proc_pid (arrWorkers s))" using assms(1) by (simp add: pool_inv_def)
  have "emits {Metrics} s (deleteWorker r s)" by simp
  with assms(2) show ?thesis
    by (auto simp: unforgotten_def waits_def deleteWorker_fields [OF d False] emits_def)
qed simp

lemma unforgotten_spawnWorker:
  assumes "pool_inv s" and "p \<noteq> q"
  shows "unforgotten p s (spawnWorker q s)"
proof -
  define v where "v = increment ''worker.spawn.new.count'' 1 (emit (Fork q) s)"
  have "emits {Metrics, Processes} s v" by (simp add: v_def)
  then have 1: "unforgotten p s v" by (rule unforgotten_lists [rotated]) (simp add: same_lists_def v_def)
  have "pool_inv v" using assms(1) by (simp add: v_def)
  from unforgotten_trans [OF 1 unforgotten_deleteWorker [OF this assms(2)]]
  show ?thesis unfolding spawnWorker_def Let_def v_def [symmetric] by (simp add: unforgotten_def waits_def)
qed

lemma unforgotten_exit:
  assumes "pool_inv s" and "p \<noteq> r" and "p \<noteq> q"
  shows "unforgotten p s (worker_exit r code b q s)"
proof -
  define v where "v = (\<lambda>m. increment m 1 s)"
  have v: "unforgotten p s (v m)" "pool_inv (v m)" for m
    using assms(1) by (simp_all add: v_def) (simp add: unforgotten_def waits_def)
  have u: "unforgotten p s (deleteWorker r (v m))" "pool_inv (deleteWorker r (v m))" for m
    using unforgotten_trans [OF v(1) unforgotten_deleteWorker [OF v(2) assms(2)]] deleteWorker_inv [OF v(2)] by simp_all
  then have "unforgotten p s (spawnWorker q (deleteWorker r (v m)))" for m
    using unforgotten_trans [OF u(1) unforgotten_spawnWorker [OF u(2) assms(3)]] by simp
  with u(1) v(1) show ?thesis
    by (cases b) (simp_all add: worker_exit_def Let_def split_beta v_def)
qed

lemma unforgotten_fold_spawn:
  "pool_inv s \<Longrightarrow> 0 \<notin> set qs \<Longrightarrow> p \<notin> set qs \<Longrightarrow> unforgotten p s (fold spawnWorker qs s)"
proof (induction qs arbitrary: s)
  case (Cons q qs)
  then have "unforgotten p s (spawnWorker q s)" "pool_inv (spawnWorker q s)"
    using unforgotten_spawnWorker spawnWorker_inv by auto
  with Cons unforgotten_trans show ?case by auto
qed simp

lemma unforgotten_ensure:
  assumes "pool_inv s" and "\<forall>i. fresh i \<noteq> 0" and "p \<notin> range fresh"
  shows "unforgotten p s (ensure_worker_count fresh b s)"
proof -
  define u where "u = (\<lambda>n. if \<not> b then increment ''worker.spawn.missing.count'' n s else s)"
  have u: "unforgotten p s (u n)" "pool_inv (u n)" for n
    using assms(1) by (simp_all add: u_def) (simp add: unforgotten_def waits_def)
  have "unforgotten p (u n) (fold spawnWorker (map fresh xs) (u n))" for n xs
    by (rule unforgotten_fold_spawn [OF u(2) fresh_pids]) (use assms(2,3) in auto)
  then have "unforgotten p s (fold spawnWorker (map fresh xs) (u n))" for n xs
    using unforgotten_trans [OF u(1)] by blast
  then show ?thesis by (simp add: ensure_worker_count_def Let_def u_def)
qed

lemma unforgotten_stop_work:
  assumes "p \<noteq> r"
  shows "unforgotten p s (stop_work now r s)"
proof -
  define u where "u = (if r \<notin> set (haltedWorkers s) \<and> getWorker r s \<noteq> None
        then s\<lparr>haltedWorkers := haltedWorkers s @ [r],
               freeWorkers := filter (\<lambda>a. a \<noteq> r) (freeWorkers s)\<rparr> else s)"
  have 1: "unforgotten p s u" using assms by (auto simp: u_def unforgotten_def waits_def)
  have "emits {Metrics} u (maybeEndRound now u)" by simp
  then have "unforgotten p u (maybeEndRound now u)"
    by (rule unforgotten_lists [OF same_pool_lists [OF maybeEndRound_same]])
  from unforgotten_trans [OF 1 this] show ?thesis by (simp add: stop_work_def u_def)
qed

lemma stop_work_answers:
  assumes "waits p s"
  shows "waits p (stop_work now r s)"
proof -
  have "same_pool u (maybeEndRound now u)" for u by (rule maybeEndRound_same)
  with assms show ?thesis by (auto simp: stop_work_def waits_def same_pool_def)
qed

lemma stop_work_halts: "set (haltedWorkers (stop_work now r s)) \<subseteq> insert r (set (haltedWorkers s))"
proof -
  have "same_pool u (maybeEndRound now u)" for u by (rule maybeEndRound_same)
  then show ?thesis by (auto simp: stop_work_def same_pool_def)
qed

lemma unforgotten_batch:
  assumes "pool_ok s" and "1 \<le> DATASET_SIZE (conf s)"
  shows "unforgotten p s (batch_result now begun res s)"
proof -
  have same: "unforgotten p s (getMoreSites now (s\<lparr>database := d\<rparr>))" for d
    using getMoreSites_same [of "s\<lparr>database := d\<rparr>" now]
    by (intro unforgotten_lists [of _ _ "{Metrics, Sql, Clock}"]) (simp_all add: same_pool_def same_lists_def)
  have more: "unforgotten p s (freeWorkersToWork now u)"
    if "same_lists s u" "arrWorkers u = arrWorkers s" "conf u = conf s" "emits {Metrics} s u" for u
  proof -
    have "unforgotten p u (freeWorkersToWork now u)"
      using that waiting_known [OF assms(1)] assms(2)
      by (intro unforgotten_freeWorkersToWork) (simp_all add: same_lists_def getWorker_cong [OF that(2)])
    from unforgotten_trans [OF unforgotten_lists [OF that(1,4)] this] show ?thesis .
  qed
  have "unforgotten p s (s\<lparr>database := d\<rparr>)" for d by (simp add: unforgotten_def waits_def)
  with same more show ?thesis
    by (auto simp: batch_result_def batch_rows_def same_lists_def Let_def split: prod.split option.split)
qed

section \<open>The tick\<close>

definition fewer_free :: "master \<Rightarrow> master \<Rightarrow> bool" where
  "fewer_free s t \<longleftrightarrow> set (freeWorkers t) \<subseteq> set (freeWorkers s) \<and> arrWorkers t = arrWorkers s \<and> conf t = conf s"

lemma unforgotten_local_loop:
  "local_loop now k b s = (b', t) \<Longrightarrow> unforgotten p s t \<and> fewer_free s t"
proof (induction k arbitrary: b s)
  case (Suc k)
  have r: "unforgotten p s (requeue k s)" "fewer_free s (requeue k s)"
    by (simp_all add: requeue_def unforgotten_def waits_def fewer_free_def)
  have d: "unforgotten p s (direct k i s) \<and> fewer_free s (direct k i s)"
    if "first_live s (freeWorkers s) = Some i" for i
  proof -
    have i: "i < length (freeWorkers s)" using first_live_Some [OF that] by simp
    have m: "mset (snd (splice_at i 1 (freeWorkers s))) + {# freeWorkers s ! i #} = mset (freeWorkers s)"
      by (rule drop_index_simps(1) [OF i])
    then have "set (freeWorkers s) = insert (freeWorkers s ! i) (set (snd (splice_at i 1 (freeWorkers s))))"
      by (metis add_mset_add_single set_mset_add_mset_insert set_mset_mset)
    then show ?thesis
      by (auto simp: direct_def unforgotten_def waits_def woken_def fewer_free_def)
  qed
  have tr: "fewer_free s u \<Longrightarrow> fewer_free u t \<Longrightarrow> fewer_free s t" for u by (auto simp: fewer_free_def)
  show ?case
  proof (cases "too_early (conf s) now (localRetries s ! k)")
    case True
    with Suc.prems Suc.IH show ?thesis unfolding local_loop_Suc by simp
  next
    case False
    show ?thesis
    proof (cases "first_live s (freeWorkers s)")
      case None
      with False Suc.prems have "local_loop now k True (requeue k s) = (b', t)" unfolding local_loop_Suc by simp
      from Suc.IH [OF this] r show ?thesis using unforgotten_trans tr by blast
    next
      case (Some i)
      with False Suc.prems have "local_loop now k b (direct k i s) = (b', t)" unfolding local_loop_Suc by simp
      from Suc.IH [OF this] d [OF Some] show ?thesis using unforgotten_trans tr by blast
    qed
  qed
qed (simp add: fewer_free_def)

lemma unforgotten_tick:
  assumes "pool_ok s" and "1 \<le> DATASET_SIZE (conf s)" and "processQueuedRetries now s = Some t"
  shows "unforgotten p s t"
proof -
  obtain u where u: "remote_tick now s = Some u" "t = local_tick now u"
    using assms(3) by (auto simp: processQueuedRetries_def)
  obtain bs where bs: "u = fold ask_verifliers bs (s\<lparr>queuedRetries := kept (conf s) now (queuedRetries s)\<rparr>)"
    using remote_tick_spec [OF u(1)] by blast
  have a: "same_master v (fold (\<lambda>w. emit (Ask_veriflier w b)) ws v)" for b ws v
    by (induction ws arbitrary: v) (auto intro: same_trans [OF same_emit])
  have "same_master v (fold ask_verifliers bs v)" for v
    by (induction bs arbitrary: v) (auto simp: ask_verifliers_def intro: same_trans [OF a])
  from same_masterD [OF this [of "s\<lparr>queuedRetries := kept (conf s) now (queuedRetries s)\<rparr>"]]
  have f: "freeWorkers u = freeWorkers s" "haltedWorkers u = haltedWorkers s" "arrWorkers u = arrWorkers s"
      "conf u = conf s"
    by (simp_all add: bs)
  have 1: "unforgotten p s u"
    by (rule unforgotten_lists [OF _ emits_remote_tick [OF u(1)]]) (simp add: same_lists_def f)
  obtain b v where v: "local_loop now (length (localRetries u)) False u = (b, v)" by (metis surj_pair)
  have 2: "unforgotten p u v" "fewer_free u v" using unforgotten_local_loop [OF v] by simp_all
  have "unforgotten p v (freeWorkersToWork now v)"
    using 2(2) f waiting_known [OF assms(1)] assms(2) getWorker_cong [of v s]
    by (intro unforgotten_freeWorkersToWork) (auto simp: fewer_free_def simp del: not_None_eq)
  then have "unforgotten p v (if b then freeWorkersToWork now v else v)" by simp
  from unforgotten_trans [OF unforgotten_trans [OF 1 2(1)] this] u(2) v show ?thesis
    by (simp add: local_tick_def)
qed

section \<open>Every event\<close>

text \<open>The ids an event may start processes under.\<close>

fun names :: "master_event \<Rightarrow> nat set" where
  "names (Worker_exit p code b q) = {p, q}"
| "names (Count_timer fresh) = range fresh"
| "names (Worker_msg now (Stop_work p)) = {p}"
| "names e = {}"

lemma unforgotten_step:
  assumes "pool_ok s" and "master_ok N e s" and "1 \<le> DATASET_SIZE (conf s)" and "p \<notin> names e"
  shows "unforgotten p s (master_step e s)"
proof -
  have lists: "same_pool s (master_step e s) \<Longrightarrow> unforgotten p s (master_step e s)"
    by (rule unforgotten_lists [OF same_pool_lists emits_step])
  have inv: "pool_inv s" using assms(1) by (simp add: pool_ok_def)
  show ?thesis
  proof (cases e)
    case (Worker_msg now m)
    show ?thesis
    proof (cases m)
      case (Stats q rep cs)
      define u where "u = s\<lparr>checkStats := merge_stats (checkStats s) cs, workerStats := nobj_put q rep (workerStats s)\<rparr>"
      define v where "v = (if uptime rep > 5000 then increment ''worker.queue.queue_size'' (int (queueLength rep))
          (increment ''worker.queue.active'' (report_activeChecks rep) u) else u)"
      have "same_pool s v" by (simp add: u_def v_def same_pool_def)
      then have "unforgotten p s v"
        by (intro unforgotten_lists [OF same_pool_lists, of _ _ "{Metrics}"]) (simp_all add: u_def v_def)
      from this unforgotten_trans [OF this unforgotten_assign] show ?thesis
        by (simp add: Worker_msg Stats worker_stats_def Let_def u_def [symmetric] v_def [symmetric])
    qed (use assms(4) Worker_msg unforgotten_stop_work lists in
      \<open>auto simp: count_totals_def recheck_def add_server_to_local_retries_def host_check_request_def same_pool_def Let_def\<close>)
  next
    case (Tick now)
    with assms(2) obtain t where t: "processQueuedRetries now s = Some t" by auto
    with unforgotten_tick [OF assms(1,3) t] Tick show ?thesis by simp
  next
    case (Batch now begun res)
    define u where "u = s\<lparr>queriesDue := queriesDue s - 1\<rparr>"
    have "pool_ok u" "1 \<le> DATASET_SIZE (conf u)" using assms(1,3) by (simp_all add: u_def)
    from unforgotten_batch [OF this, of p now begun res] Batch show ?thesis by (simp add: unforgotten_def u_def waits_def)
  qed (use assms inv lists same_pool_ssl same_pool_updateStats same_pool_next_round getMoreSites_same same_pool_reload
      unforgotten_exit unforgotten_ensure unforgotten_batch in \<open>auto simp: same_pool_def\<close>)
qed

lemma waits_stop:
  assumes "waits p s"
  shows "waits p (master_step (Worker_msg now (Stop_work r)) s)"
  using stop_work_answers [OF assms] by simp

section \<open>The worker says when it waits\<close>

text \<open>What a worker at rest is like, and that one that is not to get more work has said so last.\<close>

definition rested :: "worker \<Rightarrow> bool" where
  "rested w \<longleftrightarrow>
     (exited w = None \<and> \<not> running w \<longrightarrow>
        \<not> suicideSignal w \<and> availableForWork w \<and> (askedForWork w \<or> requests w = [])) \<and>
     (\<forall>q. Stop_work q \<in> set (posted w) \<longrightarrow> \<not> availableForWork w)"

definition speaks :: "worker \<Rightarrow> worker \<Rightarrow> bool" where
  "speaks w w' \<longleftrightarrow>
     (\<exists>ms. posted w' = posted w @ ms \<and>
        (askedForWork w' \<longrightarrow> askedForWork w \<or> exited w' \<noteq> None \<or> Send_work (pid w) \<in> set ms)) \<and>
     (suicideSignal w \<longrightarrow> suicideSignal w')"

text \<open>The fields the two speak of.\<close>

definition same_word :: "worker \<Rightarrow> worker \<Rightarrow> bool" where
  "same_word w w' \<longleftrightarrow> running w' = running w \<and> askedForWork w' = askedForWork w \<and>
     availableForWork w' = availableForWork w \<and> suicideSignal w' = suicideSignal w \<and>
     exited w' = exited w \<and> pid w' = pid w"

lemma check_loop_same_word: "same_word w (check_loop m w)"
proof (induction m w rule: check_loop.induct)
  case (1 m w)
  have "same_word w (start_check w)" by (simp add: same_word_def start_check_def)
  with 1 show ?case by (simp add: check_loop.simps [of m w] same_word_def)
qed

lemma same_word_speaks:
  "rested w \<Longrightarrow> running w \<Longrightarrow> same_word w u \<Longrightarrow> posted u = posted w \<Longrightarrow> rested u \<and> speaks w u"
  by (simp add: rested_def speaks_def same_word_def)

lemma rested_boot: "rested (boot_worker p h c now rnd)" "\<not> askedForWork (boot_worker p h c now rnd)"
  by (simp_all add: rested_def boot_worker_def reloadConfig_def Let_def)

lemma request_speaks:
  assumes "rested w" and "worker_ok (Request fl rnd r) w"
  shows "rested (on_message fl rnd r w)" and "speaks w (on_message fl rnd r w)"
    and "\<And>d. r = Queue_add d \<Longrightarrow> \<not> askedForWork (on_message fl rnd r w)"
    and "r = Evaporate \<Longrightarrow> exited (on_message fl rnd r w) \<noteq> None \<or> suicideSignal (on_message fl rnd r w)"
  using assms
  by (cases r; auto simp: rested_def speaks_def addToQueue_def post_def reloadConfig_def Let_def split: option.split)+

lemma advance_speaks:
  assumes "rested w" and "running w" and "exited w = None"
  shows "rested (advance rss w)" and "speaks w (advance rss w)"
  using assms
  by (auto simp: rested_def speaks_def advance_def retire_def ask_again_def post_def start_check_def Let_def)

lemma tallied_word:
  "same_word w (tallied sv (settled i sv w))" "requests (tallied sv (settled i sv w)) = requests w"
  "\<exists>ms. posted (tallied sv (settled i sv w)) = posted w @ ms \<and> (\<forall>q. Stop_work q \<notin> set ms)"
  by (auto simp: same_word_def tallied_def settled_def report_change_def post_def)

lemma result_speaks:
  fixes rtt now rss :: int and code err :: nat
  assumes "rested w" and "running w" and "exited w = None" and "i < length (arrCheck w)"
  defines "u \<equiv> worker_step (Result i rtt code err now rss) w"
  shows "rested u \<and> speaks w u"
proof -
  define v where "v = tallied (result_site i rtt code err now w) (settled i (result_site i rtt code err now w) w)"
  obtain f where u: "u = with_stats f (advance rss v)"
    using assms(4) by (auto simp: u_def callback_steps Let_def v_def)
  note v = tallied_word [where w = w and sv = "result_site i rtt code err now w" and i = i, folded v_def]
  have "rested v" "running v" "exited v = None"
    using assms(1-3) v by (auto simp: rested_def same_word_def)
  note a = advance_speaks [OF this, of rss]
  have "rested u" "speaks v u"
    using a by (auto simp: u with_stats_def rested_def speaks_def)
  moreover have "speaks w u"
    using \<open>speaks v u\<close> v by (auto simp: speaks_def same_word_def)
  ultimately show ?thesis by simp
qed

fun lively_worker :: "worker_event \<Rightarrow> bool" where
  "lively_worker (Ask_timer connected) = connected"
| "lively_worker e = True"

lemma worker_speaks:
  assumes "worker_inv w" and "rested w" and "worker_ok e w" and "lively_worker e"
  shows "rested (worker_step e w) \<and> speaks w (worker_step e w)"
proof (cases e)
  case (Request fl rnd r)
  with request_speaks [OF assms(2)] assms(3) show ?thesis by simp
next
  case Check_timer
  obtain m where m: "checkServers (w\<lparr>timers := timers w - 1\<rparr>) = check_loop m (w\<lparr>timers := timers w - 1\<rparr>)"
    by (simp add: checkServers_def Let_def)
  have "running w" using assms(1,3) Check_timer by (auto simp: worker_inv_def alive_inv_def split: if_splits)
  moreover have "same_word w (worker_step e w)" "posted (worker_step e w) = posted w"
    using check_loop_same_word [of "w\<lparr>timers := timers w - 1\<rparr>" m] check_loop_word [of m "w\<lparr>timers := timers w - 1\<rparr>"]
    by (simp_all add: Check_timer m same_word_def del: One_nat_def)
  ultimately show ?thesis using same_word_speaks [OF assms(2)] by blast
next
  case (Result i rtt code err now rss)
  have "exited w = None" "alive_inv w" "i \<in> set (inflight w)"
    using assms(1,3) Result by (auto simp: worker_inv_def)
  then have "running w" "exited w = None" "i < length (arrCheck w)"
    using result_alive(2) by (auto simp: alive_inv_def split: if_splits)
  from result_speaks [OF assms(2) this] Result show ?thesis by simp
next
  case Totals_timer
  with assms(2) show ?thesis by (auto simp: rested_def speaks_def sendStats_def post_def Let_def)
next
  case (Stats_timer now rss)
  with assms(2) show ?thesis by (auto simp: rested_def speaks_def stats_tick_def post_def)
next
  case (Ask_timer c)
  with assms(2,4) show ?thesis by (auto simp: rested_def speaks_def ask_timer_def post_def Let_def)
qed

section \<open>Over the channels\<close>

text \<open>A worker that has asked is waiting, or its question or an answer is under way.\<close>

definition attended :: "nat \<Rightarrow> system \<Rightarrow> bool" where
  "attended p S \<longleftrightarrow> waits p (parent S) \<or> Send_work p \<in> set (pending_msgs p S) \<or>
     (\<exists>r \<in> set (pending_requests p S). wakes r)"

definition parley_with :: "nat \<Rightarrow> worker \<Rightarrow> system \<Rightarrow> bool" where
  "parley_with p w S \<longleftrightarrow> rested w \<and> heard S p \<le> length (posted w) \<and>
     (p \<in> set (haltedWorkers (parent S)) \<longrightarrow> Stop_work p \<in> set (posted w)) \<and>
     (askedForWork w \<and> exited w = None \<and> \<not> suicideSignal w \<longrightarrow> attended p S)"

definition parley :: "system \<Rightarrow> bool" where
  "parley S \<longleftrightarrow> 1 \<le> DATASET_SIZE (conf (parent S)) \<and> (\<forall>p. p \<notin> used S \<longrightarrow> heard S p = 0) \<and>
     (\<forall>p w. fleet S p = Some w \<longrightarrow> parley_with p w S)"

lemma woken_requests: "woken p xs \<longleftrightarrow> (\<exists>r \<in> set (requests_to p xs). wakes r)"
  by (auto simp: woken_def requests_to_set)

lemma requests_to_append: "requests_to p (xs @ ys) = requests_to p xs @ requests_to p ys"
  by (simp add: requests_to_def)

text \<open>The master moves, having heard some of the worker's messages.\<close>

lemma parley_pair:
  assumes "parley_with p w S" and "fleet S p = Some w" and "fleet T p = Some w"
    and "outs (parent T) = outs (parent S) @ xs" and "taken T p = taken S p"
    and "taken S p \<le> length (requests_to p (outs (parent S)))"
    and "heard T p = heard S p + k" and "heard T p \<le> length (posted w)"
    and "p \<in> set (haltedWorkers (parent T)) \<Longrightarrow> p \<in> set (haltedWorkers (parent S)) \<or> Stop_work p \<in> set (posted w)"
    and "waits p (parent S) \<or> Send_work p \<in> set (take k (pending_msgs p S)) \<Longrightarrow> waits p (parent T) \<or> woken p xs"
  shows "parley_with p w T"
proof -
  have r: "pending_requests p T = pending_requests p S @ requests_to p xs"
    using assms(4-6) by (simp add: pending_requests_def requests_to_append)
  have m: "pending_msgs p S = take k (pending_msgs p S) @ pending_msgs p T"
    using assms(2,3,7) by (simp add: pending_msgs_def add.commute flip: drop_drop)
  have "attended p T" if "attended p S"
  proof -
    have "Send_work p \<in> set (pending_msgs p S) \<longleftrightarrow>
        Send_work p \<in> set (take k (pending_msgs p S)) \<or> Send_work p \<in> set (pending_msgs p T)"
      by (subst m) simp
    with that assms(10) show ?thesis by (auto simp: attended_def r woken_requests)
  qed
  with assms(1,8,9) show ?thesis by (auto simp: parley_with_def)
qed

text \<open>The worker moves, having read some requests.\<close>

lemma parley_worker:
  assumes "parley_with p w S" and "fleet S p = Some w" and "fleet T p = Some u" and "parent T = parent S"
    and "heard T p = heard S p" and "taken T p = taken S p + k" and "rested u" and "speaks w u" and "pid w = p"
    and "\<exists>r \<in> set (take k (pending_requests p S)). wakes r \<Longrightarrow> \<not> askedForWork u \<or> exited u \<noteq> None \<or> suicideSignal u"
    and "exited w = None"
  shows "parley_with p u T"
proof -
  obtain ms where ms: "posted u = posted w @ ms"
      "askedForWork u \<longrightarrow> askedForWork w \<or> exited u \<noteq> None \<or> Send_work p \<in> set ms" "suicideSignal w \<longrightarrow> suicideSignal u"
    using assms(8,9) by (auto simp: speaks_def)
  have h: "heard S p \<le> length (posted w)" using assms(1) by (simp add: parley_with_def)
  have m: "pending_msgs p T = pending_msgs p S @ ms"
    using assms(2,3,5) ms(1) h by (simp add: pending_msgs_def)
  have r: "pending_requests p S = take k (pending_requests p S) @ pending_requests p T"
    using assms(4,6) by (simp add: pending_requests_def add.commute flip: drop_drop)
  have "attended p T" if u: "askedForWork u" "exited u = None" "\<not> suicideSignal u"
  proof (cases "Send_work p \<in> set ms")
    case True
    then show ?thesis by (simp add: attended_def m)
  next
    case False
    with u ms assms(1,11) have "attended p S" by (auto simp: parley_with_def)
    moreover have "(\<exists>r \<in> set (pending_requests p S). wakes r) \<longleftrightarrow>
        (\<exists>r \<in> set (take k (pending_requests p S)). wakes r) \<or> (\<exists>r \<in> set (pending_requests p T). wakes r)"
      by (subst r) auto
    ultimately show ?thesis using assms(10) u by (auto simp: attended_def m assms(4))
  qed
  with assms(1,4,5,7) ms(1) h show ?thesis by (auto simp: parley_with_def)
qed

section \<open>Every step\<close>

lemma spawn_halts: "set (haltedWorkers (spawnWorker q s)) \<subseteq> set (haltedWorkers s)"
  by (auto simp: spawnWorker_def deleteWorker_def Let_def)

lemma exit_halts: "set (haltedWorkers (worker_exit p code b q s)) \<subseteq> set (haltedWorkers s)"
proof -
  have d: "set (haltedWorkers (deleteWorker p (increment m 1 s))) \<subseteq> set (haltedWorkers s)" for m
    by (auto simp: deleteWorker_def Let_def)
  have "set (haltedWorkers (spawnWorker q (deleteWorker p (increment m 1 s)))) \<subseteq> set (haltedWorkers s)" for m
    using spawn_halts d by (rule subset_trans)
  with d show ?thesis by (simp add: worker_exit_def Let_def split_beta)
qed

lemma ensure_halts: "set (haltedWorkers (ensure_worker_count fresh b s)) \<subseteq> set (haltedWorkers s)"
proof -
  have "set (haltedWorkers (fold spawnWorker qs u)) \<subseteq> set (haltedWorkers u)" for qs u
    using spawn_halts by (induction qs arbitrary: u) (auto, blast)
  from this [of _ "increment _ _ s"] this [of _ s] show ?thesis
    by (simp add: ensure_worker_count_def Let_def)
qed

lemma newborn_parley:
  assumes "newborn p w" and "heard S p = 0" and "p \<notin> set (haltedWorkers (parent S))"
  shows "parley_with p w S"
  using assms rested_boot by (auto simp: parley_with_def newborn_def)

lemma parley_moves:
  assumes "sys_inv N S" and "parley S" and "nursery birth" and "master_ok N e (parent S)"
    and "fresh_for (used S) e" and "1 \<le> DATASET_SIZE (conf (master_step e (parent S)))"
    and "\<And>now m. e \<noteq> Worker_msg now m"
  shows "parley (master_moves birth e (S\<lparr>fleet := \<lambda>p. if p \<in> reaped e then None else fleet S p\<rparr>))"
proof -
  define t where "t = master_step e (parent S)"
  define T where "T = master_moves birth e (S\<lparr>fleet := \<lambda>p. if p \<in> reaped e then None else fleet S p\<rparr>)"
  have m: "master_reachable N (parent S)" "pids (parent S) \<subseteq> used S" "dom (fleet S) = pids (parent S)"
      "\<And>p w. fleet S p = Some w \<Longrightarrow> worker_part p w (taken S p) (outs (parent S))"
    using assms(1) by (auto simp: sys_inv_def trace_part_def used_def)
  have ok: "pool_ok (parent S)" using reachable_parts [OF m(1)] by (simp add: pool_ok_def)
  obtain xs where "delta (used S) (reaped e) (parent S) t xs"
    using master_delta [OF m(1) assms(4,5) m(2)] unfolding t_def by blast
  then have xs: "outs t = outs (parent S) @ xs" "set (forked xs) \<inter> used S = {}"
    by (simp_all add: delta_def)
  have T: "parent T = t" "fleet T = adopt birth xs (\<lambda>p. if p \<in> reaped e then None else fleet S p)"
      "taken T = taken S" "heard T = heard S"
    using xs(1) by (simp_all add: T_def master_moves_def Let_def flip: t_def)
  have halts: "set (haltedWorkers t) \<subseteq> set (haltedWorkers (parent S))"
  proof (cases "names e = {}")
    case True
    then have "unforgotten p (parent S) t" for p
      unfolding t_def by (intro unforgotten_step [OF ok assms(4)]) (use assms(2) in \<open>auto simp: parley_def\<close>)
    then show ?thesis by (auto simp: unforgotten_def)
  next
    case False
    with assms(7) exit_halts ensure_halts show ?thesis
      by (cases e) (fastforce simp: t_def)+
  qed
  have "parley_with p w T" if f: "fleet T p = Some w" for p w
  proof (cases "p \<in> set (forked xs)")
    case True
    then have u: "p \<notin> used S" using xs(2) by blast
    then have "heard T p = 0" using assms(2) by (simp add: parley_def T(4))
    moreover have "p \<notin> set (haltedWorkers (parent S))"
      using u m(2) ok by (auto simp: pool_ok_def pool_inv_def)
    moreover have "newborn p w" using f True assms(3) by (auto simp: T(2) adopt_at nursery_def)
    ultimately show ?thesis using halts by (intro newborn_parley) (auto simp: T(1))
  next
    case False
    with f have s: "fleet S p = Some w" "p \<notin> reaped e" by (auto simp: T(2) adopt_at split: if_splits)
    then have "p \<in> used S" using m(2,3) by auto
    then have "p \<notin> names e" using s(2) assms(5,7) by (cases e) auto
    then have "unforgotten p (parent S) t"
      unfolding t_def by (intro unforgotten_step [OF ok assms(4)]) (use assms(2) in \<open>auto simp: parley_def\<close>)
    then have "waits p (parent S) \<Longrightarrow> waits p t \<or> woken p xs"
      using xs(1) by (auto simp: unforgotten_def)
    moreover have "parley_with p w S" using assms(2) s(1) by (simp add: parley_def)
    moreover from this have "heard S p \<le> length (posted w)" by (simp add: parley_with_def)
    ultimately show ?thesis
      using s(1) f halts m(4) [OF s(1)] xs(1)
      by (intro parley_pair [of p w S T xs 0]) (auto simp: T worker_part_def)
  qed
  moreover have "heard T p = 0" if "p \<notin> used T" for p
    using that assms(2) xs(1) by (simp add: parley_def T used_def forked_def)
  ultimately show ?thesis
    using assms(6) unfolding T_def [symmetric] by (simp add: parley_def T(1) t_def)
qed

text \<open>
  What keeps the handshake going: DATASET_SIZE is at least one in every configuration the master reads,
  and a worker asks for work while its channel to the master is open.
\<close>

fun lively :: "sys_event \<Rightarrow> bool" where
  "lively (Master_event birth (Reload (Some c))) \<longleftrightarrow> 1 \<le> DATASET_SIZE c"
| "lively (Act p e) \<longleftrightarrow> lively_worker e"
| "lively e \<longleftrightarrow> True"

lemma fresh_unused: "unused q S \<Longrightarrow> q \<notin> used S"
  by (simp add: unused_def)

lemma parley_hear:
  assumes "sys_inv N S" and "parley S" and "pending_msgs p S = m # ms"
  shows "parley (sys_step (Hear p now) S)"
proof -
  define t where "t = master_step (Worker_msg now m) (parent S)"
  define T where "T = sys_step (Hear p now) S"
  have T: "parent T = t" "fleet T = fleet S" "taken T = taken S" "heard T = (heard S)(p := Suc (heard S p))"
    using assms(3) by (simp_all add: T_def t_def)
  have r: "master_reachable N (parent S)" "dom (fleet S) = pids (parent S)" "pids (parent S) \<subseteq> used S"
      "\<And>p w. fleet S p = Some w \<Longrightarrow> worker_part p w (taken S p) (outs (parent S))"
    using assms(1) by (auto simp: sys_inv_def trace_part_def used_def)
  have ok: "pool_ok (parent S)" using reachable_parts [OF r(1)] by (simp add: pool_ok_def)
  have D: "1 \<le> DATASET_SIZE (conf (parent S))" using assms(2) by (simp add: parley_def)
  have mok: "master_ok N (Worker_msg now m) (parent S)" using pending_own(1) [OF assms(1), of m p] assms(3) by simp
  obtain v where v: "fleet S p = Some v" "drop (heard S p) (posted v) = m # ms"
    using assms(3) by (cases "fleet S p") (auto simp: pending_msgs_def)
  then have "m \<in> set (posted v)" by (metis in_set_dropD list.set_intros(1))
  then have own: "own p m" using assms(1) v(1) by (auto simp: sys_inv_def worker_part_def honest_def)
  have hp: "Suc (heard S p) \<le> length (posted v)" using v(2) by (metis drop_eq_Nil list.simps(3) not_less_eq_eq)
  obtain xs where xs: "outs t = outs (parent S) @ xs"
    using emits_step [of "Worker_msg now m" "parent S"] by (auto simp: emits_def t_def)
  have names: "names (Worker_msg now m) \<subseteq> {p}" using own by (cases m) auto
  have stop: "m = Stop_work p \<or> names (Worker_msg now m) = {}" using own by (cases m) auto
  have halts: "q \<in> set (haltedWorkers (parent S)) \<or> m = Stop_work q" if "q \<in> set (haltedWorkers t)" for q
  proof (cases "m = Stop_work p")
    case True
    with that stop_work_halts [of now p "parent S"] show ?thesis by (auto simp: t_def)
  next
    case False
    with stop have "unforgotten q (parent S) t" unfolding t_def by (intro unforgotten_step [OF ok mok D]) simp
    with that show ?thesis by (auto simp: unforgotten_def)
  qed
  have kept: "waits q t \<or> woken q xs" if "waits q (parent S)" for q
  proof (cases "m = Stop_work p")
    case True
    with waits_stop [OF that] show ?thesis by (simp add: t_def)
  next
    case False
    with stop have "unforgotten q (parent S) t" unfolding t_def by (intro unforgotten_step [OF ok mok D]) simp
    with that xs show ?thesis by (auto simp: unforgotten_def)
  qed
  have asks: "waits p t \<or> woken p xs" if "m = Send_work p"
  proof -
    have "p \<in> pids (parent S)" using v(1) r(2) by auto
    then have "getWorker p (parent S) \<noteq> None"
      using getWorker_known ok unfolding pool_ok_def by blast
    from send_work_answers [OF this D, of now] that xs show ?thesis by (auto simp: answered_to_def t_def)
  qed
  have "parley_with q w T" if f: "fleet T q = Some w" for q w
  proof (cases "q = p")
    case True
    with f v T(2) have w: "w = v" by simp
    have "parley_with p v S" using assms(2) v(1) by (simp add: parley_def)
    from parley_pair [OF this v(1), of T xs 1] show ?thesis
      using f v(1) T xs r(4) [OF v(1)] hp halts [of p] kept [of p] asks \<open>m \<in> set (posted v)\<close> assms(3)
      by (auto simp: True w worker_part_def)
  next
    case False
    have s: "fleet S q = Some w" using f T(2) by simp
    have pw: "parley_with q w S" using assms(2) s by (simp add: parley_def)
    have "m \<noteq> Stop_work q" using own False by auto
    with parley_pair [OF pw s, of T xs 0] show ?thesis
      using False f T xs r(4) [OF s] halts [of q] kept [of q] pw
      by (auto simp: worker_part_def parley_with_def)
  qed
  moreover have "heard T q = 0" if "q \<notin> used T" for q
  proof -
    have "q \<notin> used S" using that xs by (simp add: used_def T(1) forked_def)
    moreover from this have "q \<noteq> p" using v(1) r(2,3) by auto
    ultimately show ?thesis using assms(2) by (simp add: T(4) parley_def)
  qed
  moreover have "conf t = conf (parent S)" unfolding t_def conf_step by simp
  ultimately show ?thesis using D unfolding T_def [symmetric] by (simp add: parley_def T(1))
qed

lemma parley_act:
  assumes "sys_inv N S" and "parley S" and "fleet S p = Some w" and "worker_ok e w" and "lively_worker e"
    and "exited w = None"
    and "\<exists>r \<in> set (take k (pending_requests p S)). wakes r \<Longrightarrow>
      \<not> askedForWork (worker_step e w) \<or> exited (worker_step e w) \<noteq> None \<or> suicideSignal (worker_step e w)"
    and T: "parent T = parent S" "fleet T = (fleet S)(p \<mapsto> worker_step e w)" "taken T = (taken S)(p := taken S p + k)"
      "heard T = heard S"
  shows "parley T"
proof -
  have w: "worker_reachable w" "pid w = p"
    using assms(1,3) by (auto simp: sys_inv_def worker_part_def)
  have pw: "parley_with q u S" if "fleet S q = Some u" for q u using assms(2) that by (simp add: parley_def)
  have sp: "rested (worker_step e w)" "speaks w (worker_step e w)"
    using worker_speaks [OF reachable_inv [OF w(1)] _ assms(4,5)] pw [OF assms(3)] by (simp_all add: parley_with_def)
  have "parley_with q u T" if "fleet T q = Some u" for q u
  proof (cases "q = p")
    case True
    with that T(2) have "fleet T p = Some (worker_step e w)" "u = worker_step e w" by auto
    with True show ?thesis
      using parley_worker [OF pw [OF assms(3)] assms(3) _ T(1) _ _ sp w(2) assms(7,6)] T by simp
  next
    case False
    with that T(2) have s: "fleet S q = Some u" by simp
    from pw [OF s] that s False show ?thesis
      by (simp add: parley_with_def attended_def pending_msgs_def pending_requests_def T)
  qed
  then show ?thesis using assms(2) by (simp add: parley_def T used_def)
qed

lemma parley_step:
  assumes "sys_inv N S" and "parley S" and "sys_ok N e S" and "lively e"
  shows "parley (sys_step e S)"
proof (cases e)
  case (Master_event birth ev)
  have r: "reaped ev = {}" "fresh_for (used S) ev" "ev \<noteq> Worker_msg now m" for now m
    using assms(3) Master_event by (cases ev; simp add: unused_def)+
  have "1 \<le> DATASET_SIZE (conf (master_step ev (parent S)))"
    using assms(2,4) Master_event unfolding conf_step
    by (auto simp: parley_def split: master_event.split option.split)
  from parley_moves [OF assms(1,2) _ _ r(2) this, of birth] r(1,3) assms(3) Master_event show ?thesis by simp
next
  case (Hear p now)
  then obtain m ms where "pending_msgs p S = m # ms"
    using assms(3) by (cases "pending_msgs p S") auto
  from parley_hear [OF assms(1,2) this] Hear show ?thesis by simp
next
  case (Take p fl rnd)
  then obtain w r rs where w: "fleet S p = Some w" "exited w = None" "pending_requests p S = r # rs"
    using assms(3) by (cases "pending_requests p S") (auto split: option.splits)
  have ok: "worker_ok (Request fl rnd r) w"
    using pending_fresh [OF assms(1), of r p] w assms(3) Take by (simp split: worker_request.splits)
  have "rested w" using assms(2) w(1) by (simp add: parley_def parley_with_def)
  note sp = request_speaks [OF this ok]
  have "wakes r \<Longrightarrow> \<not> askedForWork (on_message fl rnd r w) \<or> exited (on_message fl rnd r w) \<noteq> None \<or>
      suicideSignal (on_message fl rnd r w)"
    using sp(3,4) by (cases r) auto
  then show ?thesis
    by (intro parley_act [OF assms(1,2) w(1) ok, where k = 1]) (use Take w in simp_all)
next
  case (Act p ev)
  then obtain w where w: "fleet S p = Some w" "worker_ok ev w"
    using assms(3) by (auto split: option.splits)
  moreover have "exited w = None" using w(2) by (cases ev) simp_all
  ultimately show ?thesis
    using Act assms(4) by (intro parley_act [OF assms(1,2) w, where k = 0]) simp_all
next
  case (Reap birth p q)
  then obtain w where w: "fleet S p = Some w" using assms(3) by (auto split: option.splits)
  then have "p \<noteq> 0" using assms(1) reachable_parts by (fastforce simp: sys_inv_def dom_def pool_inv_def)
  moreover have "1 \<le> DATASET_SIZE (conf (master_step (Worker_exit p (exited w) False q) (parent S)))"
    using assms(2) unfolding conf_step by (simp add: parley_def)
  ultimately show ?thesis
    using parley_moves [OF assms(1,2), of birth "Worker_exit p (exited w) False q"] assms(3) w Reap
    by (simp add: unused_def fun_upd_def)
next
  case (Killed birth p q)
  then have "p \<noteq> 0" using assms(1,3) reachable_parts by (fastforce simp: sys_inv_def dom_def pool_inv_def)
  moreover have "1 \<le> DATASET_SIZE (conf (master_step (Worker_exit p None False q) (parent S)))"
    using assms(2) unfolding conf_step by (simp add: parley_def)
  ultimately show ?thesis
    using parley_moves [OF assms(1,2), of birth "Worker_exit p None False q"] assms(3) Killed
    by (simp add: unused_def fun_upd_def)
qed

section \<open>Live runs\<close>

inductive system_live :: "int \<Rightarrow> system \<Rightarrow> bool" for N :: int where
  live_boot: "nursery birth \<Longrightarrow> inj fresh \<Longrightarrow> \<forall>i. fresh i \<noteq> 0 \<Longrightarrow> N \<le> NUM_OF_CHECKS c \<Longrightarrow> 1 \<le> DATASET_SIZE c \<Longrightarrow>
    system_live N (boot_system birth fresh c now)"
| live_step: "system_live N S \<Longrightarrow> sys_ok N e S \<Longrightarrow> lively e \<Longrightarrow> system_live N (sys_step e S)"

lemma parley_boot:
  assumes "nursery birth" and "1 \<le> DATASET_SIZE c"
  shows "parley (boot_system birth fresh c now)"
proof -
  define s where "s = ensure_worker_count fresh True (boot_master c now)"
  have h: "haltedWorkers s = []"
    using ensure_halts [of fresh True "boot_master c now"] by (simp add: s_def boot_master_def)
  have "conf s = c"
    using same_retries_ensure [of "boot_master c now" fresh True] by (simp add: s_def same_retries_def boot_master_def)
  with assms h show ?thesis
    by (auto simp: parley_def boot_system_def Let_def adopt_at nursery_def simp flip: s_def
        split: if_splits intro!: newborn_parley)
qed

lemma system_live_inv: "system_live N S \<Longrightarrow> sys_inv N S \<and> parley S"
  by (induction rule: system_live.induct) (auto intro: sys_inv_boot sys_inv_step parley_boot parley_step)

lemma live_reachable: "system_live N S \<Longrightarrow> system_reachable N S"
  by (induction rule: system_live.induct) (auto intro: booting moving)

interpretation lv: transition_system
    "\<lambda>S. \<exists>birth fresh c now. nursery birth \<and> inj fresh \<and> (\<forall>i. fresh i \<noteq> 0) \<and> N \<le> NUM_OF_CHECKS c \<and>
       1 \<le> DATASET_SIZE c \<and> S = boot_system birth fresh c now"
    sys_step "\<lambda>e S. sys_ok N e S \<and> lively e" "\<lambda>S. sys_inv N S \<and> parley S"
  for N :: int
  by unfold_locales (auto intro: sys_inv_boot sys_inv_step parley_boot parley_step)

end
