(* ===== verification/Server.thy ===== *)
theory Server
  imports Sites Json
begin

text \<open>
  \<open>lib/server.js\<close>: the HTTPS server the verifliers send their results to, and the processes the master
  runs it in (\<open>cluster\<close> at the end of \<open>lib/jetmon.js\<close>).  The events of node's HTTPS server are the
  inputs, and \<open>JSON.parse\<close>, the numbers of the language and the decoding of a query string are given
  by the caller.  The trace holds the responses, by the number of their request, and the messages
  sent to the master.
\<close>

section \<open>Responses\<close>

record response =
  resp_code :: nat
  resp_type :: string
  resp_body :: string

definition ERROR :: int where "ERROR = -1"
definition SUCCESS :: int where "SUCCESS = 1"

lemmas [const_defs] = ERROR_def SUCCESS_def

definition json_reply :: "nat \<Rightarrow> int \<Rightarrow> response" where
  "json_reply code n = \<lparr>resp_code = code, resp_type = ''application/json'',
     resp_body = ''{'' @ [CHR 0x22] @ ''response'' @ [CHR 0x22] @ '':'' @ show_int n @ ''}''\<rparr>"

section \<open>The result of a report\<close>

text \<open>The message to the master: its \<open>msgtype\<close> and \<open>payload\<close>.\<close>

type_synonym 'n ssl_report = "string \<times> 'n json"

type_synonym 'n outcome = "js_error + response \<times> 'n ssl_report option"

text \<open>The first veriflier whose token is loosely equal to the one given.\<close>

fun authorise :: "'n numbers \<Rightarrow> 'n json \<Rightarrow> verifier list \<Rightarrow> js_error + verifier option" where
  "authorise N t [] = Inr None"
| "authorise N t (v # vs) =
     and_then (eq_string N t (v_auth_token v)) (\<lambda>b. if b then Inr (Some v) else authorise N t vs)"

text \<open>The statements after the checks of the parameters, the same in both handlers.\<close>

definition accept :: "'n numbers \<Rightarrow> verifier list \<Rightarrow> string \<Rightarrow> 'n json \<Rightarrow> 'n json \<Rightarrow> 'n outcome" where
  "accept N vs msgtype t req =
     and_then (authorise N t vs)
       (\<lambda>found. case found of
          None \<Rightarrow> Inr (json_reply 503 ERROR, None)
        | Some v \<Rightarrow> Inr (json_reply 200 SUCCESS,
                       Some (msgtype, set_member ''veriflier_host'' (JStr (v_host v)) req)))"

text \<open>The end of a POST: \<open>Inl\<close> is an exception, which the handler catches and logs.\<close>

definition put_array :: "'n numbers \<Rightarrow> (string \<Rightarrow> 'n json option) \<Rightarrow> verifier list \<Rightarrow> string \<Rightarrow> 'n outcome" where
  "put_array N parse vs s_data =
     (case parse s_data of
        None \<Rightarrow> Inl Bad_syntax
      | Some req \<Rightarrow>
          and_then (member ''auth_token'' req) (\<lambda>tok.
            case tok of None \<Rightarrow> Inr (json_reply 404 ERROR, None)
            | Some t \<Rightarrow>
                and_then (member ''checks'' req) (\<lambda>cs.
                  case cs of None \<Rightarrow> Inr (json_reply 404 ERROR, None)
                  | Some c \<Rightarrow>
                      and_then (zero_length N c) (\<lambda>z.
                        if z then Inr (json_reply 404 ERROR, None)
                        else accept N vs ''host_status_array'' t req))))"

text \<open>
  Any other meth.  \<open>d\<close> is the value of the parameter \<open>d\<close>, undefined where it is missing.  The first
  test wants it undefined and empty at once; \<open>JSON.parse\<close> reads \<open>undefined\<close> as the text
  \<open>undefined\<close>.
\<close>

definition put_one :: "'n numbers \<Rightarrow> (string \<Rightarrow> 'n json option) \<Rightarrow> verifier list \<Rightarrow> string option \<Rightarrow> 'n outcome" where
  "put_one N parse vs d =
     (if d = None \<and> d = Some [] then Inr (json_reply 503 ERROR, None)
      else
        case parse (case d of None \<Rightarrow> ''undefined'' | Some t \<Rightarrow> t) of
          None \<Rightarrow> Inl Bad_syntax
        | Some req \<Rightarrow>
            and_then (member ''auth_token'' req) (\<lambda>tok.
            and_then (member ''blog_id'' req) (\<lambda>blog.
            and_then (member ''status'' req) (\<lambda>st.
              case tok of None \<Rightarrow> Inr (json_reply 404 ERROR, None)
              | Some t \<Rightarrow>
                  if blog = None \<or> st = None then Inr (json_reply 404 ERROR, None)
                  else accept N vs ''host_status'' t req))))"

section \<open>The process\<close>

text \<open>
  \<open>bodies\<close> holds what has arrived of the POST requests that have not ended; \<open>gone\<close> is set when an
  exception escapes a handler, which ends the process.
\<close>

record 'n ssl_server =
  veriflierArray :: "verifier list"
  bodies :: "(nat \<times> string) list"
  replies :: "(nat \<times> response) list"
  forwarded :: "'n ssl_report list"
  gone :: bool

definition boot_server :: "config \<Rightarrow> 'n ssl_server" where
  "boot_server c = \<lparr>veriflierArray = VERIFIERS c, bodies = [], replies = [], forwarded = [], gone = False\<rparr>"

definition respond :: "nat \<Rightarrow> response \<Rightarrow> 'n ssl_server \<Rightarrow> 'n ssl_server" where
  "respond i r p = p\<lparr>replies := replies p @ [(i, r)]\<rparr>"

definition deliver :: "nat \<Rightarrow> response \<times> 'n ssl_report option \<Rightarrow> 'n ssl_server \<Rightarrow> 'n ssl_server" where
  "deliver i x p =
     (let p = respond i (fst x) p
      in case snd x of None \<Rightarrow> p | Some m \<Rightarrow> p\<lparr>forwarded := forwarded p @ [m]\<rparr>)"

text \<open>The routes \<open>/\<close> and \<open>/get/status\<close>.\<close>

definition route_root :: response where
  "route_root = \<lparr>resp_code = 404, resp_type = ''text/html'',
     resp_body = ''Unsupported call'' @ [char_of (10 :: nat)]\<rparr>"

definition route_status :: response where
  "route_status = \<lparr>resp_code = 200, resp_type = ''text/plain'', resp_body = ''OK''\<rparr>"

text \<open>
  The handler of a request, by the part of its address before the question mark.  An address starts
  with a slash, so none is the name of a property every object inherits; and \<open>split\<close> always
  returns an array, so the last branch of the source is not taken.
\<close>

definition request_handler ::
  "'n numbers \<Rightarrow> (string \<Rightarrow> 'n json option) \<Rightarrow> (string \<Rightarrow> string option) \<Rightarrow>
   nat \<Rightarrow> string \<Rightarrow> string \<Rightarrow> 'n ssl_server \<Rightarrow> 'n ssl_server" where
  "request_handler N parse query i meth url p =
     (let route = hd (split_on (CHR ''?'') url)
      in if route = ''/'' then
           respond i route_root p
         else if route = ''/put/host-status'' then
           (if meth = ''POST'' then p\<lparr>bodies := (i, []) # bodies p\<rparr>
            else case put_one N parse (veriflierArray p) (query url) of
                   Inl e \<Rightarrow> p\<lparr>gone := True\<rparr>
                 | Inr x \<Rightarrow> deliver i x p)
         else if route = ''/get/status'' then
           respond i route_status p
         else
           respond i \<lparr>resp_code = 404, resp_type = ''text/plain'',
                      resp_body = ''not found'' @ [char_of (10 :: nat)]\<rparr> p)"

text \<open>The functions a POST registers: \<open>data\<close> and \<open>end\<close>.\<close>

definition post_data :: "nat \<Rightarrow> string \<Rightarrow> 'n ssl_server \<Rightarrow> 'n ssl_server" where
  "post_data i chunk p =
     p\<lparr>bodies := map (\<lambda>(j, b). (j, if j = i then b @ chunk else b)) (bodies p)\<rparr>"

definition post_end ::
  "'n numbers \<Rightarrow> (string \<Rightarrow> 'n json option) \<Rightarrow> nat \<Rightarrow> 'n ssl_server \<Rightarrow> 'n ssl_server" where
  "post_end N parse i p =
     (case map_of (bodies p) i of
        None \<Rightarrow> p
      | Some s_data \<Rightarrow>
          let p1 = p\<lparr>bodies := filter (\<lambda>b. fst b \<noteq> i) (bodies p)\<rparr>
          in case put_array N parse (veriflierArray p) s_data of
               Inl e \<Rightarrow> p1
             | Inr x \<Rightarrow> deliver i x p1)"

datatype https_event = Incoming nat string string | Body_chunk nat string | Body_end nat

fun https_step ::
  "'n numbers \<Rightarrow> (string \<Rightarrow> 'n json option) \<Rightarrow> (string \<Rightarrow> string option) \<Rightarrow>
   https_event \<Rightarrow> 'n ssl_server \<Rightarrow> 'n ssl_server" where
  "https_step N parse query (Incoming i meth url) p = request_handler N parse query i meth url p"
| "https_step N parse query (Body_chunk i chunk) p = post_data i chunk p"
| "https_step N parse query (Body_end i) p = post_end N parse i p"

section \<open>The processes of the master\<close>

definition NUM_SSL_SERVERS :: nat where "NUM_SSL_SERVERS = 4"

definition boot_cluster :: "config \<Rightarrow> 'n ssl_server list" where
  "boot_cluster c = replicate NUM_SSL_SERVERS (boot_server c)"

text \<open>
  An event of the process number \<open>k\<close>; a process that is gone has none.  The master's handler of an exit
  only logs it.
\<close>

definition cluster_step ::
  "'n numbers \<Rightarrow> (string \<Rightarrow> 'n json option) \<Rightarrow> (string \<Rightarrow> string option) \<Rightarrow>
   nat \<times> https_event \<Rightarrow> 'n ssl_server list \<Rightarrow> 'n ssl_server list" where
  "cluster_step N parse query e ps =
     (case e of (k, x) \<Rightarrow>
        if k < length ps \<and> \<not> gone (ps ! k) then ps[k := https_step N parse query x (ps ! k)] else ps)"

end
