(* ===== verification/Server_Properties.thy ===== *)
theory Server_Properties
  imports Server Retries
begin

text \<open>
  What the HTTPS server guarantees: to the verifliers, the response to every request; to the master,
  that every report comes from a veriflier of the configuration and carries its host.  The last
  section shows how the server is lost.
\<close>

section \<open>Reports\<close>

text \<open>A report that a veriflier of the list vouches for.\<close>

definition vouched :: "'n numbers \<Rightarrow> verifier list \<Rightarrow> 'n ssl_report \<Rightarrow> bool" where
  "vouched N vs r \<longleftrightarrow> (\<exists>v m t. v \<in> set vs \<and> snd r = JObj m \<and>
     map_of m ''veriflier_host'' = Some (JStr (v_host v)) \<and> map_of m ''auth_token'' = Some t \<and>
     eq_string N t (v_auth_token v) = Inr True)"

lemma authorise_sound:
  "authorise N t vs = Inr (Some v) \<Longrightarrow> v \<in> set vs \<and> eq_string N t (v_auth_token v) = Inr True"
  by (induction vs) (auto split: if_splits)

lemma accept_vouched:
  assumes "member ''auth_token'' req = Inr (Some t)" and "accept N vs msgtype t req = Inr (r, Some m)"
  shows "vouched N vs m"
proof -
  obtain o' where req: "req = JObj o'" "map_of o' ''auth_token'' = Some t"
    using member_obj [OF assms(1)] by blast
  obtain v where v: "authorise N t vs = Inr (Some v)"
      and m: "m = (msgtype, set_member ''veriflier_host'' (JStr (v_host v)) req)"
    using assms(2) by (auto simp: accept_def split: option.splits)
  obtain o'' where o'': "set_member ''veriflier_host'' (JStr (v_host v)) req = JObj o''"
    by (simp add: req)
  have "member k (JObj o'') = Inr (if k = ''veriflier_host'' then Some (JStr (v_host v)) else map_of o' k)" for k
    using map_of_set_member [of k "''veriflier_host''" "JStr (v_host v)" o'] o'' req(1) by simp
  with authorise_sound [OF v] req(2) show ?thesis
    by (auto simp: vouched_def m o'' intro!: exI [of _ v])
qed

lemma put_vouched_pair:
  "put_array N parse vs s = Inr (r, Some m) \<Longrightarrow> vouched N vs m"
  "put_one N parse vs d = Inr (r, Some m) \<Longrightarrow> vouched N vs m"
  by (auto simp: put_array_def put_one_def split: option.splits if_splits intro: accept_vouched)

lemma put_vouched:
  "put_array N parse vs s = Inr x \<Longrightarrow> snd x = Some m \<Longrightarrow> vouched N vs m"
  "put_one N parse vs d = Inr x \<Longrightarrow> snd x = Some m \<Longrightarrow> vouched N vs m"
  by (metis prod.collapse put_vouched_pair(1)) (metis prod.collapse put_vouched_pair(2))

lemma deliver_fields [simp]:
  "veriflierArray (deliver i x p) = veriflierArray p" "bodies (deliver i x p) = bodies p"
  "replies (deliver i x p) = replies p @ [(i, fst x)]" "gone (deliver i x p) = gone p"
  "forwarded (deliver i x p) = forwarded p @ (case snd x of None \<Rightarrow> [] | Some m \<Rightarrow> [m])"
  by (auto simp: deliver_def respond_def Let_def split: option.split)

section \<open>The invariant of a process\<close>

text \<open>
  No request has two responses or a response before its end; what is forwarded is vouched for.  node
  gives every request a number of its own and calls no function of a process that is gone.
\<close>

definition server_inv :: "'n numbers \<Rightarrow> verifier list \<Rightarrow> 'n ssl_server \<Rightarrow> bool" where
  "server_inv N vs p \<longleftrightarrow> veriflierArray p = vs \<and> (\<forall>m \<in> set (forwarded p). vouched N vs m) \<and>
     distinct (map fst (bodies p)) \<and> distinct (map fst (replies p)) \<and>
     fst ` set (bodies p) \<inter> fst ` set (replies p) = {}"

fun https_ok :: "https_event \<Rightarrow> 'n ssl_server \<Rightarrow> bool" where
  "https_ok (Incoming i meth url) p \<longleftrightarrow> \<not> gone p \<and>
     i \<notin> fst ` set (bodies p) \<and> i \<notin> fst ` set (replies p)"
| "https_ok e p \<longleftrightarrow> \<not> gone p"

lemma post_data_keys: "map fst (bodies (post_data i chunk p)) = map fst (bodies p)"
  by (simp add: post_data_def split_beta comp_def)

lemma post_data_keys': "fst ` set (bodies (post_data i chunk p)) = fst ` set (bodies p)"
  by (metis post_data_keys set_map)

lemma deliver_inv:
  assumes "server_inv N vs p" and "i \<notin> fst ` set (bodies p)" and "i \<notin> fst ` set (replies p)"
    and "\<And>m. snd x = Some m \<Longrightarrow> vouched N vs m"
  shows "server_inv N vs (deliver i x p)"
  using assms by (auto simp: server_inv_def split: option.split)

lemma respond_deliver: "respond i r p = deliver i (r, None) p"
  by (simp add: deliver_def)

lemma server_inv_step:
  assumes "server_inv N vs p" and "https_ok e p"
  shows "server_inv N vs (https_step N parse query e p)"
proof (cases e)
  case (Incoming i meth url)
  have "server_inv N vs (deliver i (r, None) p)" for r
    using assms Incoming by (intro deliver_inv) simp_all
  moreover have "server_inv N vs (deliver i x p)" if "put_one N parse (veriflierArray p) (query url) = Inr x" for x
    using assms Incoming put_vouched(2) [OF that] by (intro deliver_inv) (auto simp: server_inv_def)
  moreover have "server_inv N vs (p\<lparr>bodies := (i, []) # bodies p\<rparr>)" "server_inv N vs (p\<lparr>gone := True\<rparr>)"
    using assms Incoming by (auto simp: server_inv_def)
  ultimately show ?thesis
    using Incoming by (auto simp: request_handler_def respond_deliver Let_def split: sum.split)
next
  case (Body_chunk i chunk)
  then show ?thesis using assms(1) post_data_keys [of i chunk p] post_data_keys' [of i chunk p]
    by (simp add: server_inv_def) (simp add: post_data_def)
next
  case (Body_end i)
  show ?thesis
  proof (cases "map_of (bodies p) i")
    case None
    then show ?thesis using assms(1) Body_end by (simp add: post_end_def)
  next
    case (Some s_data)
    let ?p = "p\<lparr>bodies := filter (\<lambda>b. fst b \<noteq> i) (bodies p)\<rparr>"
    have p: "server_inv N vs ?p" using assms(1) by (auto simp: server_inv_def distinct_map_filter)
    have "i \<in> fst ` set (bodies p)" using Some by (metis map_of_eq_None_iff not_None_eq)
    then have i: "i \<notin> fst ` set (bodies ?p)" "i \<notin> fst ` set (replies ?p)"
      using assms(1) by (auto simp: server_inv_def)
    have "server_inv N vs (deliver i x ?p)" if "put_array N parse vs s_data = Inr x" for x
      using put_vouched(1) [OF that] by (intro deliver_inv [OF p i]) blast
    then show ?thesis
      using p assms(1) Body_end Some by (auto simp: post_end_def server_inv_def Let_def split: sum.split)
  qed
qed

section \<open>The processes together\<close>

definition cluster_inv :: "'n numbers \<Rightarrow> verifier list \<Rightarrow> 'n ssl_server list \<Rightarrow> bool" where
  "cluster_inv N vs ps \<longleftrightarrow> length ps = NUM_SSL_SERVERS \<and> (\<forall>p \<in> set ps. server_inv N vs p)"

definition cluster_ok :: "nat \<times> https_event \<Rightarrow> 'n ssl_server list \<Rightarrow> bool" where
  "cluster_ok e ps \<longleftrightarrow> fst e < length ps \<and> https_ok (snd e) (ps ! fst e)"

lemma https_ok_alive: "https_ok e p \<Longrightarrow> \<not> gone p"
  by (cases e) simp_all

lemma cluster_step_at:
  "cluster_ok e ps \<Longrightarrow>
   cluster_step N parse query e ps = ps[fst e := https_step N parse query (snd e) (ps ! fst e)]"
  by (auto simp: cluster_step_def cluster_ok_def split_beta dest: https_ok_alive)

lemma cluster_inv_step:
  assumes "cluster_inv N vs ps" and "cluster_ok e ps"
  shows "cluster_inv N vs (cluster_step N parse query e ps)"
proof -
  have "server_inv N vs (https_step N parse query (snd e) (ps ! fst e))"
    using assms by (intro server_inv_step) (auto simp: cluster_inv_def cluster_ok_def)
  then show ?thesis
    using assms(1) by (auto simp: cluster_step_at [OF assms(2)] cluster_inv_def dest!: set_update_subset_insert [THEN subsetD])
qed

interpretation hs: transition_system "\<lambda>ps. ps = boot_cluster c" "cluster_step N parse query" cluster_ok
    "cluster_inv N (VERIFIERS c)"
  for c :: config and N :: "'n numbers" and parse query
proof unfold_locales
  show "ps = boot_cluster c \<Longrightarrow> cluster_inv N (VERIFIERS c) ps" for ps :: "'n ssl_server list"
    by (auto simp: cluster_inv_def boot_cluster_def server_inv_def boot_server_def)
qed (rule cluster_inv_step)

text \<open>The states the processes can be in.\<close>

inductive cluster_reachable ::
  "'n numbers \<Rightarrow> (string \<Rightarrow> 'n json option) \<Rightarrow> (string \<Rightarrow> string option) \<Rightarrow> config \<Rightarrow> 'n ssl_server list \<Rightarrow> bool"
  for N parse query c where
  booted: "cluster_reachable N parse query c (boot_cluster c)"
| stepped: "cluster_reachable N parse query c ps \<Longrightarrow> cluster_ok e ps \<Longrightarrow>
    cluster_reachable N parse query c (cluster_step N parse query e ps)"

lemma cluster_reachable_inv: "cluster_reachable N parse query c ps \<Longrightarrow> cluster_inv N (VERIFIERS c) ps"
  by (induction rule: cluster_reachable.induct) (auto intro: hs.inv_init hs.inv_step)

text \<open>
  C15. Whatever is sent to the server, a report reaches the master only if its request carried the token
  of a veriflier of the configuration, and then with that veriflier's host, whatever host the
  request named; and no request gets two responses.
\<close>

theorem reports_are_authenticated:
  assumes "cluster_reachable N parse query c ps" and "p \<in> set ps"
  shows "(\<forall>msgtype payload. (msgtype, payload) \<in> set (forwarded p) \<longrightarrow>
      (\<exists>v m t. v \<in> set (VERIFIERS c) \<and> payload = JObj m \<and>
         map_of m ''veriflier_host'' = Some (JStr (v_host v)) \<and>
         map_of m ''auth_token'' = Some t \<and> eq_string N t (v_auth_token v) = Inr True)) \<and>
    distinct (map fst (replies p))"
proof -
  have "server_inv N (VERIFIERS c) p"
    using cluster_reachable_inv [OF assms(1)] assms(2) by (simp add: cluster_inv_def)
  then have "\<forall>r \<in> set (forwarded p). vouched N (VERIFIERS c) r" and "distinct (map fst (replies p))"
    by (simp_all add: server_inv_def)
  then show ?thesis unfolding vouched_def by (metis snd_conv)
qed

section \<open>The responses to a report\<close>

lemma fold_post_data:
  assumes "i \<notin> fst ` set bs"
  shows "fold (https_step N parse query) (map (Body_chunk i) chunks) (p\<lparr>bodies := (i, b) # bs\<rparr>) =
     p\<lparr>bodies := (i, b @ concat chunks) # bs\<rparr>"
proof (induction chunks arbitrary: b)
  case (Cons x xs)
  have "map (\<lambda>(j, b). (j, if j = i then b @ x else b)) bs = bs"
    using assms by (intro map_idI) force
  then show ?case using Cons.IH [of "b @ x"] by (simp add: post_data_def)
qed simp

lemma post_run:
  assumes "i \<notin> fst ` set (bodies p)"
  shows "fold (https_step N parse query)
      (Incoming i ''POST'' ''/put/host-status'' # map (Body_chunk i) chunks @ [Body_end i]) p =
     (case put_array N parse (veriflierArray p) (concat chunks) of Inl e \<Rightarrow> p | Inr x \<Rightarrow> deliver i x p)"
proof -
  have "request_handler N parse query i ''POST'' ''/put/host-status'' p = p\<lparr>bodies := (i, []) # bodies p\<rparr>"
    by (simp add: request_handler_def)
  moreover have "filter (\<lambda>b. fst b \<noteq> i) (bodies p) = bodies p"
    using assms by (intro filter_True) force
  ultimately show ?thesis
    using fold_post_data [OF assms, of N parse query chunks "[]" p]
    by (simp add: post_end_def Let_def)
qed

lemma authorise_string:
  "authorise N (JStr tok) vs = Inr (find (\<lambda>v. tok = v_auth_token v) vs)"
  by (induction vs) simp_all

text \<open>
  C35. The responses to a POST, however its body is cut into chunks: 404 where the token or the checks
  are missing, 503 for an unknown token, 200 together with the message to the master for the
  token of a veriflier; but none at all, not even an error, where the body does not parse.
\<close>

theorem post_outcomes:
  fixes p :: "'n ssl_server"
  defines "result \<equiv> \<lambda>N parse query i chunks. fold (https_step N parse query)
      (Incoming i ''POST'' ''/put/host-status'' # map (Body_chunk i) chunks @ [Body_end i]) p"
  assumes "i \<notin> fst ` set (bodies p)"
  shows "(parse (concat chunks) = None \<longrightarrow> result N parse query i chunks = p) \<and>
    (\<forall>m. parse (concat chunks) = Some (JObj m) \<longrightarrow>
       map_of m ''auth_token'' = None \<or> map_of m ''checks'' \<in> {None, Some (JArr [])} \<longrightarrow>
       result N parse query i chunks = p\<lparr>replies := replies p @ [(i, json_reply 404 (-1))]\<rparr>) \<and>
    (\<forall>m tok x xs. parse (concat chunks) = Some (JObj m) \<longrightarrow>
       map_of m ''auth_token'' = Some (JStr tok) \<longrightarrow> map_of m ''checks'' = Some (JArr (x # xs)) \<longrightarrow>
       result N parse query i chunks =
         (case find (\<lambda>v. tok = v_auth_token v) (veriflierArray p) of
            None \<Rightarrow> p\<lparr>replies := replies p @ [(i, json_reply 503 (-1))]\<rparr>
          | Some v \<Rightarrow> p\<lparr>replies := replies p @ [(i, json_reply 200 1)],
                       forwarded := forwarded p @ [(''host_status_array'',
                         set_member ''veriflier_host'' (JStr (v_host v)) (JObj m))]\<rparr>))"
  unfolding result_def post_run [OF assms(2)]
  by (auto simp: put_array_def accept_def authorise_string deliver_def respond_def const_defs Let_def
      split: option.split)

section \<open>The loss of the server\<close>

text \<open>A process that is gone, and a cluster of such processes, change no more.\<close>

lemma gone_cluster:
  assumes "\<forall>p \<in> set ps. gone p"
  shows "fold (cluster_step N parse query) es ps = ps"
  using assms by (induction es) (auto simp: cluster_step_def)

lemma map_gone:
  assumes "\<And>p. f (p\<lparr>gone := True\<rparr>) = f p"
  shows "map f (ps[n := (ps ! n)\<lparr>gone := True\<rparr>]) = map f ps"
  using assms by (simp add: map_update) (simp flip: map_update)

text \<open>One request without the parameter for each process.\<close>

definition bare_requests :: "(nat \<Rightarrow> nat) \<Rightarrow> string \<Rightarrow> nat \<Rightarrow> (nat \<times> https_event) list" where
  "bare_requests ids meth n = map (\<lambda>k. (k, Incoming (ids k) meth ''/put/host-status'')) [0 ..< n]"

lemma bare_requests_end:
  fixes N :: "'n numbers" and ids :: "nat \<Rightarrow> nat"
  assumes "meth \<noteq> ''POST''" and "query ''/put/host-status'' = None" and "parse ''undefined'' = None"
    and "n \<le> length ps"
  defines "qs \<equiv> fold (cluster_step N parse query) (bare_requests ids meth n) ps"
  shows "map forwarded qs = map forwarded ps \<and> map replies qs = map replies ps \<and> length qs = length ps \<and>
    (\<forall>k < n. gone (qs ! k))"
  using assms(4) unfolding qs_def
proof (induction n)
  case (Suc n)
  define rs where "rs = fold (cluster_step N parse query) (bare_requests ids meth n) ps"
  have IH: "map forwarded rs = map forwarded ps \<and> map replies rs = map replies ps \<and> length rs = length ps \<and>
    (\<forall>k < n. gone (rs ! k))"
    using Suc by (simp add: rs_def)
  define ts where "ts = cluster_step N parse query (n, Incoming (ids n) meth ''/put/host-status'') rs"
  have "ts = rs[n := (rs ! n)\<lparr>gone := True\<rparr>]"
  proof (cases "gone (rs ! n)")
    case True
    then have "(rs ! n)\<lparr>gone := True\<rparr> = rs ! n" by (cases "rs ! n") simp
    from arg_cong [OF this, of "list_update rs n"] True show ?thesis
      by (simp only: list_update_id) (simp add: ts_def cluster_step_def)
  next
    case False
    then show ?thesis
      using IH Suc.prems assms(1-3) by (simp add: ts_def cluster_step_def request_handler_def put_one_def)
  qed
  moreover have "fold (cluster_step N parse query) (bare_requests ids meth (Suc n)) ps = ts"
    by (simp add: bare_requests_def ts_def rs_def)
  ultimately show ?case using IH Suc.prems by (auto simp: nth_list_update less_Suc_eq map_gone)
qed (simp add: bare_requests_def)

text \<open>
  C16. Anyone can end the HTTPS server for good: a GET of the report address without its parameter, which
  needs no token, raises an exception that nothing catches (the test for a missing parameter is
  never true), and the master does not replace the process.  After one such request to each process no
  event makes the server answer or report again.
\<close>

theorem bare_requests_end_the_server:
  fixes ps :: "'n ssl_server list" and N :: "'n numbers" and ids :: "nat \<Rightarrow> nat"
  assumes "cluster_reachable N parse query c ps"
    and "meth \<noteq> ''POST''" and "query ''/put/host-status'' = None" and "parse ''undefined'' = None"
  defines "qs \<equiv> \<lambda>es. fold (cluster_step N parse query) (bare_requests ids meth 4 @ es) ps"
  shows "(\<forall>es. map forwarded (qs es) = map forwarded ps \<and> map replies (qs es) = map replies ps) \<and>
    (\<forall>es. \<forall>p \<in> set (qs es). gone p)"
proof -
  define rs where "rs = fold (cluster_step N parse query) (bare_requests ids meth 4) ps"
  have "length ps = 4"
    using cluster_reachable_inv [OF assms(1)] by (simp add: cluster_inv_def NUM_SSL_SERVERS_def)
  then have rs: "map forwarded rs = map forwarded ps" "map replies rs = map replies ps" "\<forall>p \<in> set rs. gone p"
    using bare_requests_end [where meth = meth and query = query and parse = parse, OF assms(2-4), of 4 ps N ids]
    by (auto simp: rs_def in_set_conv_nth)
  then have "qs es = rs" for es
    using gone_cluster [OF rs(3)] by (simp add: qs_def rs_def)
  with rs show ?thesis by simp
qed

section \<open>A run\<close>

definition demo_numbers :: "int numbers" where
  "demo_numbers = \<lparr>to_number = (\<lambda>s. None), num_str = show_int, zero = 0, one = 1\<rparr>"

definition demo_report :: "(string \<times> int json) list" where
  "demo_report = [(''auth_token'', JStr ''<VERIFLIER_AUTH_TOKEN>''), (''veriflier_host'', JStr ''liar''),
     (''checks'', JArr [JObj [(''blog_id'', JNum 1), (''status'', JNum 0)]])]"

text \<open>A parser that knows one text.\<close>

definition demo_parse :: "string \<Rightarrow> int json option" where
  "demo_parse s = (if s = ''{report}'' then Some (JObj demo_report) else None)"

definition demo_post :: "https_event list" where
  "demo_post = [Incoming 1 ''POST'' ''/put/host-status'', Body_chunk 1 ''{rep'', Body_chunk 1 ''ort}'', Body_end 1]"

definition demo_cluster :: "int ssl_server list" where
  "demo_cluster = fold (cluster_step demo_numbers demo_parse (\<lambda>url. None)) (map (Pair 2) demo_post)
     (boot_cluster sample_config)"

lemma demo_cluster_reachable: "cluster_reachable demo_numbers demo_parse (\<lambda>url. None) sample_config demo_cluster"
  unfolding demo_cluster_def demo_post_def list.map fold_simps
  by (intro cluster_reachable.stepped cluster_reachable.booted; code_simp)

theorem reports_are_authenticated_witness:
  "\<exists>m. forwarded (demo_cluster ! 2) = [(''host_status_array'', JObj m)] \<and>
     map_of m ''veriflier_host'' = Some (JStr ''veriflier'') \<and>
     (\<exists>v t. v \<in> set (VERIFIERS sample_config) \<and> map_of m ''auth_token'' = Some t \<and>
        eq_string demo_numbers t (v_auth_token v) = Inr True)"
proof -
  have p: "demo_cluster ! 2 \<in> set demo_cluster" by code_simp
  have r: "forwarded (demo_cluster ! 2) = [(''host_status_array'', set_member ''veriflier_host'' (JStr ''veriflier'') (JObj demo_report))]"
    by code_simp
  define m where "m = map (\<lambda>(j, w). (j, if j = ''veriflier_host'' then JStr ''veriflier'' else w)) demo_report"
  have m: "set_member ''veriflier_host'' (JStr ''veriflier'') (JObj demo_report) = JObj m"
    by (simp add: m_def demo_report_def)
  have "map_of m ''veriflier_host'' = Some (JStr ''veriflier'')" by (simp add: m_def demo_report_def)
  with reports_are_authenticated [OF demo_cluster_reachable p, THEN conjunct1] r m show ?thesis by fastforce
qed

theorem post_outcomes_witness:
  "fold (https_step demo_numbers demo_parse (\<lambda>url. None))
     (Incoming 1 ''POST'' ''/put/host-status'' # map (Body_chunk 1) [''{rep''] @ [Body_end 1])
     (boot_server sample_config :: int ssl_server) = boot_server sample_config"
  by (rule post_outcomes [THEN conjunct1, rule_format]) (simp_all add: boot_server_def demo_parse_def)

theorem bare_requests_end_the_server_witness:
  "map forwarded (fold (cluster_step demo_numbers demo_parse (\<lambda>url. None))
     (bare_requests id ''GET'' 4 @ map (Pair 2) demo_post) demo_cluster) = map forwarded demo_cluster"
  by (rule bare_requests_end_the_server [OF demo_cluster_reachable, THEN conjunct1, rule_format, THEN conjunct1])
    (simp_all add: demo_parse_def)

end
