(* ===== verification/Answers.thy ===== *)
theory Answers
  imports Server_Properties Master_Properties
begin

text \<open>
  The way of a veriflier's answer: from the HTTPS server's report through the channel of the process to
  the master's queue.  \<open>host_status_of\<close> and \<open>ssl_msg_of\<close> say what \<open>checkHostStatus\<close> and \<open>sslWorkerCallBack\<close> find in a
  report, whatever its members are: missing ones, ones of another type, values that are no objects.
\<close>

section \<open>Reading a report\<close>

text \<open>
  What is read of a number as it comes out of the channel: the integer it is, if it is one, and how many
  of the indices 0, 1, 2, ... are below it; and the text a value is passed on as.
\<close>

record 'n reader =
  as_int :: "'n \<Rightarrow> int option"
  indices :: "'n \<Rightarrow> nat"
  json_text :: "'n json \<Rightarrow> string"

text \<open>\<open>b == j\<close> for a natural number \<open>b\<close>: null is equal to no number.\<close>

definition eq_nat :: "'n numbers \<Rightarrow> 'n reader \<Rightarrow> nat \<Rightarrow> 'n json \<Rightarrow> js_error + bool" where
  "eq_nat N R b j =
     (case j of JNull \<Rightarrow> Inr False
      | _ \<Rightarrow> and_then (js_number N j) (\<lambda>x. Inr (case x of None \<Rightarrow> False | Some n \<Rightarrow> as_int R n = Some (int b))))"

text \<open>A member that is only stored, and compared with zero.\<close>

definition jsval_of :: "'n numbers \<Rightarrow> 'n reader \<Rightarrow> 'n json option \<Rightarrow> jsval" where
  "jsval_of N R x =
     (case x of
        None \<Rightarrow> Undefined
      | Some j \<Rightarrow>
          (case (case j of JNum n \<Rightarrow> as_int R n | _ \<Rightarrow> None) of
             Some i \<Rightarrow> Whole i
           | None \<Rightarrow> Other (json_text R j) (eq_zero N j)))"

text \<open>
  \<open>data.k\<close>, for \<open>data\<close> undefined or a value, compared by \<open>eq\<close>; reading a member of undefined or of null throws.
\<close>

definition compared :: "string \<Rightarrow> 'n json option \<Rightarrow> ('n json \<Rightarrow> js_error + bool) \<Rightarrow> js_error + bool" where
  "compared k data eq =
     (case data of
        None \<Rightarrow> Inl Bad_type
      | Some j \<Rightarrow> and_then (member k j) (\<lambda>v. case v of None \<Rightarrow> Inr False | Some w \<Rightarrow> eq w))"

definition stored :: "'n numbers \<Rightarrow> 'n reader \<Rightarrow> string \<Rightarrow> 'n json option \<Rightarrow> jsval" where
  "stored N R k data =
     jsval_of N R (case data of Some (JObj m) \<Rightarrow> map_of m k | _ \<Rightarrow> None)"

text \<open>The argument \<open>data\<close> of \<open>checkHostStatus\<close>.\<close>

definition host_status_of :: "'n numbers \<Rightarrow> 'n reader \<Rightarrow> 'n json option \<Rightarrow> host_status" where
  "host_status_of N R data =
     \<lparr>hs_blog_id = (\<lambda>b. compared ''blog_id'' data (eq_nat N R b)),
      hs_monitor_url = (\<lambda>u. compared ''monitor_url'' data (\<lambda>j. eq_string N j u)),
      hs_status = stored N R ''status'' data, hs_rtt = stored N R ''rtt'' data,
      hs_code = stored N R ''code'' data, hs_error_code = stored N R ''error_code'' data\<rparr>"

text \<open>
  The values the loop over \<open>checks\<close> visits: the elements of an array, the characters of a string, the
  members 0, 1, 2, ... of an object that has a \<open>length\<close>.  Without a length, or where reading it throws,
  it visits none.
\<close>

definition elements :: "'n numbers \<Rightarrow> 'n reader \<Rightarrow> 'n json option \<Rightarrow> 'n json option list" where
  "elements N R cs =
     (case cs of
        Some (JArr js) \<Rightarrow> map Some js
      | Some (JStr s) \<Rightarrow> map (\<lambda>ch. Some (JStr [ch])) s
      | Some (JObj m) \<Rightarrow>
          (case map_option (js_number N) (map_of m ''length'') of
             Some (Inr (Some n)) \<Rightarrow> map (\<lambda>i. map_of m (show_nat i)) [0 ..< indices R n]
           | _ \<Rightarrow> [])
      | _ \<Rightarrow> [])"

text \<open>
  The message that \<open>sslWorkerCallBack\<close> gets; the server has set \<open>veriflier_host\<close> in the object that is the payload.
\<close>

definition ssl_msg_of :: "'n numbers \<Rightarrow> 'n reader \<Rightarrow> 'n ssl_report \<Rightarrow> ssl_msg option" where
  "ssl_msg_of N R x =
     (case snd x of
        JObj m \<Rightarrow>
          (case map_of m ''veriflier_host'' of
             Some (JStr h) \<Rightarrow>
               Some (if fst x = ''host_status'' then Host_status h (host_status_of N R (Some (snd x)))
                     else if fst x = ''host_status_array''
                     then Host_status_array h (map (host_status_of N R) (elements N R (map_of m ''checks'')))
                     else Other_ssl)
           | _ \<Rightarrow> None)
      | _ \<Rightarrow> None)"

text \<open>Every report the server forwards is read.\<close>

lemma vouched_read:
  assumes "vouched N vs x"
  shows "\<exists>m. ssl_msg_of N R x = Some m"
  using assms by (auto simp: vouched_def ssl_msg_of_def)

section \<open>The master with the server\<close>

record 'n front =
  office :: master
  desks :: "'n ssl_server list"
  passed :: "nat \<Rightarrow> nat"

datatype front_event =
    Office master_event
  | Desk "nat \<times> https_event"
  | Pass nat int

fun front_step ::
  "'n numbers \<Rightarrow> (string \<Rightarrow> 'n json option) \<Rightarrow> (string \<Rightarrow> string option) \<Rightarrow> 'n reader \<Rightarrow>
   front_event \<Rightarrow> 'n front \<Rightarrow> 'n front" where
  "front_step N parse query R (Office e) F = F\<lparr>office := master_step e (office F)\<rparr>"
| "front_step N parse query R (Desk e) F = F\<lparr>desks := cluster_step N parse query e (desks F)\<rparr>"
| "front_step N parse query R (Pass k now) F =
     (case drop (passed F k) (forwarded (desks F ! k)) of
        [] \<Rightarrow> F
      | x # xs \<Rightarrow>
          F\<lparr>office := (case ssl_msg_of N R x of None \<Rightarrow> office F | Some m \<Rightarrow> master_step (Ssl_msg now m) (office F)),
            passed := (passed F)(k := Suc (passed F k))\<rparr>)"

text \<open>A report can be passed on when one is waiting, whatever it holds.\<close>

fun front_ok :: "int \<Rightarrow> front_event \<Rightarrow> 'n front \<Rightarrow> bool" where
  "front_ok M (Office e) F \<longleftrightarrow> master_ok M e (office F) \<and> (case e of Ssl_msg now m \<Rightarrow> False | _ \<Rightarrow> True)"
| "front_ok M (Desk e) F \<longleftrightarrow> cluster_ok e (desks F)"
| "front_ok M (Pass k now) F \<longleftrightarrow> k < length (desks F) \<and> passed F k < length (forwarded (desks F ! k))"

inductive front_reachable ::
  "int \<Rightarrow> 'n numbers \<Rightarrow> (string \<Rightarrow> 'n json option) \<Rightarrow> (string \<Rightarrow> string option) \<Rightarrow> 'n reader \<Rightarrow>
   config \<Rightarrow> 'n front \<Rightarrow> bool"
  for M N parse query R c where
  opened: "master_init M s \<Longrightarrow>
    front_reachable M N parse query R c \<lparr>office = s, desks = boot_cluster c, passed = (\<lambda>k. 0)\<rparr>"
| worked: "front_reachable M N parse query R c F \<Longrightarrow> front_ok M e F \<Longrightarrow>
    front_reachable M N parse query R c (front_step N parse query R e F)"

section \<open>Where the answers in the queue come from\<close>

definition answers_from :: "string set \<Rightarrow> master \<Rightarrow> bool" where
  "answers_from H s \<longleftrightarrow> (\<forall>r \<in> set (queuedRetries s). \<forall>ch \<in> set (checks r).
     check_type ch = JETMON_CHECK \<or> check_host ch \<in> H)"

fun hosts :: "ssl_msg \<Rightarrow> string set" where
  "hosts (Host_status h d) = {h}"
| "hosts (Host_status_array h ds) = {h}"
| "hosts Other_ssl = {}"

lemma answers_same: "same_retries s t \<Longrightarrow> answers_from H s \<Longrightarrow> answers_from H t"
  by (simp add: answers_from_def same_retries_def)

lemmas answers_frames =
  answers_same [OF same_retries_emit(5)] answers_same [OF same_retries_worker_exit]
  answers_same [OF same_retries_ensure] answers_same [OF same_retries_getMoreSites]
  answers_same [OF same_retries_next_round] answers_same [OF same_retries_stop_work]
  answers_same [OF same_retries_send_work] answers_same [OF same_retries_worker_stats]
  answers_same [OF same_retries_batch]

lemma checks_answered:
  "checks (answered limit h data now r) = checks r @
     [\<lparr>check_type = VERIFLIER_CHECK, check_host = h, check_status = hs_status data, check_rtt = hs_rtt data,
       check_code = hs_code data, check_error_code = hs_error_code data\<rparr>]"
  by (simp add: answered_def take_answer_def Let_def)

lemma answers_effects [simp]:
  "answers_from H (announce k srv st s) = answers_from H s"
  "answers_from H (s\<lparr>roundTimers := n\<rparr>) = answers_from H s"
  "answers_from H (s\<lparr>restartTimers := n\<rparr>) = answers_from H s"
  "answers_from H (s\<lparr>queriesDue := n\<rparr>) = answers_from H s"
  by (simp_all add: answers_from_def)

lemma answers_checkHostStatus:
  assumes "answers_from H s" and "h \<in> H"
  shows "answers_from H (fst (checkHostStatus h d now s))"
proof (cases "entry_at d (queuedRetries s)")
  case None
  then show ?thesis using assms(1) by (simp add: check_unknown answers_from_def)
next
  case (Some i)
  define r where "r = answered (peerLimit s) h d now (queuedRetries s ! i)"
  have "queuedRetries s ! i \<in> set (queuedRetries s)" using entry_at_Some [OF Some] by simp
  then have "\<forall>ch \<in> set (checks r). check_type ch = JETMON_CHECK \<or> check_host ch \<in> H"
    using assms by (auto simp: r_def checks_answered answers_from_def)
  then have "answers_from H (take_in i r s)"
    using assms(1)
    by (auto simp: take_in_def answers_from_def Let_def dest!: set_update_subset_insert [THEN subsetD])
  then show ?thesis using check_known(1) [OF Some, of h now] by (simp add: r_def [symmetric] Let_def)
qed

lemma answers_ssl:
  assumes "answers_from H s" and "hosts m \<subseteq> H"
  shows "answers_from H (sslWorkerCallBack now m s)"
  using assms by (cases m) (auto intro: answers_checkHostStatus check_each_inv)

lemma answers_msg:
  assumes "answers_from H s" and "msg_ok m s"
  shows "answers_from H (workerMsgCallback now m s)"
proof (cases m)
  case (Totals t)
  then show ?thesis using assms(1) by (simp add: count_totals_def answers_from_def)
next
  case (Recheck sv)
  then show ?thesis using assms
    by (auto simp: recheck_def add_server_to_local_retries_def host_check_request_def answers_from_def by_workers_def)
next
  case (Notify_still_down sv)
  then show ?thesis using assms(1) by simp
qed (use assms(1) in \<open>auto intro: answers_frames\<close>)

lemma answers_step:
  assumes "answers_from H s" and "master_ok M e s" and "\<And>now m. e = Ssl_msg now m \<Longrightarrow> hosts m \<subseteq> H"
  shows "answers_from H (master_step e s)"
proof (cases e)
  case (Worker_msg now m)
  with assms(1,2) answers_msg show ?thesis by simp
next
  case (Ssl_msg now m)
  with assms(1,3) answers_ssl show ?thesis by simp
next
  case (Tick now)
  then obtain t where t: "processQueuedRetries now s = Some t" using assms(2) by auto
  have "\<exists>r' \<in> set (queuedRetries s). checks r = checks r'"
    if "r \<in> set (kept (conf s) now (queuedRetries s))" for r
    using that by (auto simp: kept_def asked_def)
  then have "answers_from H t"
    using assms(1) unfolding answers_from_def tick_queues(4) [OF t] by metis
  with t Tick show ?thesis by simp
next
  case (Stats_tick now rss)
  with assms(1) show ?thesis
    by (simp add: updateStats_def restart_if_late_def resetVariables_def emit_stats_def answers_from_def Let_def)
next
  case (Reload fl)
  have "queuedRetries (fold (\<lambda>w. emit (To_worker (proc_pid w) Config_update)) ws u) = queuedRetries u"
    for ws :: "proc list" and u
    by (induction ws arbitrary: u) simp_all
  with Reload assms(1) show ?thesis
    by (simp add: reload_signal_def answers_from_def Let_def split: option.split)
next
  case (Db_updated b)
  with assms(1) show ?thesis by (simp add: answers_from_def)
next
  case (File_opened j)
  with assms(1) show ?thesis by (simp add: answers_from_def)
qed (use assms(1) in \<open>auto intro: answers_frames\<close>)

section \<open>The invariant\<close>

lemma vouched_hosts:
  assumes "vouched N vs x" and "ssl_msg_of N R x = Some m"
  shows "hosts m \<subseteq> v_host ` set vs"
  using assms by (auto simp: vouched_def ssl_msg_of_def split: if_splits)

definition front_inv :: "'n numbers \<Rightarrow> config \<Rightarrow> 'n front \<Rightarrow> bool" where
  "front_inv N c F \<longleftrightarrow> cluster_inv N (VERIFIERS c) (desks F) \<and> answers_from (v_host ` set (VERIFIERS c)) (office F)"

lemma front_inv_step:
  assumes "front_inv N c F" and "front_ok M e F"
  shows "front_inv N c (front_step N parse query R e F)"
proof (cases e)
  case (Office ev)
  have "answers_from (v_host ` set (VERIFIERS c)) (master_step ev (office F))"
    using assms Office by (intro answers_step) (auto simp: front_inv_def)
  with assms(1) Office show ?thesis by (simp add: front_inv_def)
next
  case (Desk x)
  with assms cluster_inv_step [of N "VERIFIERS c" "desks F" x parse query] show ?thesis
    by (simp add: front_inv_def)
next
  case (Pass k now)
  define x where "x = forwarded (desks F ! k) ! passed F k"
  have p: "k < length (desks F)" "drop (passed F k) (forwarded (desks F ! k)) = x # drop (Suc (passed F k)) (forwarded (desks F ! k))"
      "x \<in> set (forwarded (desks F ! k))"
    using assms(2) Pass by (simp_all add: x_def Cons_nth_drop_Suc)
  have "vouched N (VERIFIERS c) x"
    using assms(1) p by (auto simp: front_inv_def cluster_inv_def server_inv_def)
  then obtain m where m: "ssl_msg_of N R x = Some m" "hosts m \<subseteq> v_host ` set (VERIFIERS c)"
    using vouched_read vouched_hosts by metis
  then have "answers_from (v_host ` set (VERIFIERS c)) (master_step (Ssl_msg now m) (office F))"
    using assms(1) by (intro answers_step [where M = 0]) (auto simp: front_inv_def)
  with assms(1) p(2) m(1) Pass show ?thesis by (simp add: front_inv_def)
qed

lemma front_reachable_inv:
  "front_reachable M N parse query R c F \<Longrightarrow> front_inv N c F \<and> master_reachable M (office F)"
proof (induction rule: front_reachable.induct)
  case (opened s)
  have "queuedRetries s = []"
    using opened same_retries_ensure by (auto simp: master_init_def same_retries_def boot_master_def)
  then show ?case
    using hs.inv_init [of "boot_cluster c" c N] master_reachable.start [OF opened]
    by (simp add: front_inv_def answers_from_def)
next
  case (worked F e)
  have "master_reachable M (office (front_step N parse query R e F))"
  proof (cases e)
    case (Office ev)
    with worked master_reachable.event [of M "office F" ev] show ?thesis by simp
  next
    case (Pass k now)
    have "master_reachable M (master_step (Ssl_msg now m) (office F))" for m
      using worked by (intro master_reachable.event) simp_all
    with worked Pass show ?thesis by (simp split: list.split option.split)
  qed (use worked in simp)
  with worked front_inv_step show ?case by blast
qed

end
