(* ===== verification/Retry_Properties.thy ===== *)
theory Retry_Properties
  imports Master_Properties Emissions
begin

text \<open>
  The properties of the master's handling of failures: the recheck of a site, the questions to the
  verifliers, the counting of their answers, and the notices that follow.
\<close>

lemma unasked_sent: "\<forall>v b. Ask_veriflier v b \<notin> set xs \<Longrightarrow> sent_to v xs = []"
proof (induction xs)
  case (Cons x xs)
  then have "entries_for v x = []" by (auto simp: entries_for_def split: out.split)
  with Cons show ?case by simp
qed simp

section \<open>The tick\<close>

lemma tick_outs:
  assumes "processQueuedRetries now s = Some t"
  shows "\<exists>bs ys. outs t = outs s @ concat (map (\<lambda>b. map (\<lambda>v. Ask_veriflier v b) (VERIFIERS (conf s))) bs) @ ys \<and>
    (\<forall>v b. Ask_veriflier v b \<notin> set ys) \<and>
    concat (rev bs) = map (asked (int (length (VERIFIERS (conf s))))) (rev (unsent (queuedRetries s))) \<and>
    (\<forall>b \<in> set bs. b \<noteq> [] \<and> int (length b) \<le> js_or (VERIFLIER_BATCH_SIZE (conf s)) 200)"
proof -
  obtain u where u: "remote_tick now s = Some u" "t = local_tick now u"
    using assms by (auto simp: processQueuedRetries_def)
  define xs where "xs = map (asked (int (length (VERIFIERS (conf s))))) (rev (unsent (queuedRetries s)))"
  define n where "n = js_or (VERIFLIER_BATCH_SIZE (conf s)) 200"
  obtain bs where bs: "u = fold ask_verifliers bs (s\<lparr>queuedRetries := kept (conf s) now (queuedRetries s)\<rparr>)"
      "batch_loop n (int (length (unsent (queuedRetries s))) - 1) xs [] = Some bs"
    using remote_tick_spec [OF u(1)] by (auto simp: xs_def n_def)
  have b: "concat (rev bs) = xs \<and> (\<forall>b \<in> set bs. b \<noteq> [] \<and> int (length b) \<le> n)"
  proof (cases "unsent (queuedRetries s) = []")
    case True
    then have "xs = []" by (simp add: xs_def)
    with bs(2) True have "bs = []" by (simp add: batch_loop.simps [of n "- 1"])
    with \<open>xs = []\<close> show ?thesis by simp
  next
    case False
    with u(1) remote_tick_returns [of now s] have "0 < n" by (simp add: n_def)
    with batch_loop_partition [of n xs "[]"] bs(2) show ?thesis by (auto simp: xs_def)
  qed
  obtain ys where ys: "outs t = outs u @ ys" "\<forall>v b. Ask_veriflier v b \<notin> set ys"
    using emits_local_tick [of u now] u(2) by (fastforce simp: emits_def)
  show ?thesis
    by (intro exI [of _ bs] exI [of _ ys]) (use b ys bs(1) in \<open>simp add: outs_fold_ask xs_def n_def\<close>)
qed

text \<open>
  C14. One tick of the veriflier queue: every entry not asked about yet goes to every configured
  veriflier exactly once (as often as the veriflier is listed) and stays in the queue; an entry that
  has been asked about stays while answers are outstanding and the last activity is not older than
  TIMEOUT_FOR_REQUESTS_SEC, and is dropped otherwise.  No batch is empty or exceeds
  VERIFLIER_BATCH_SIZE.
\<close>

theorem tick_asks_every_veriflier:
  fixes s :: master
  defines "n \<equiv> int (length (VERIFIERS (conf s)))"
  assumes "processQueuedRetries now s = Some t"
  shows "mset (sent_to v (drop (length (outs s)) (outs t))) =
      repeat_mset (count_list (VERIFIERS (conf s)) v)
        (image_mset (\<lambda>r. r\<lparr>requests_sent := True, requests_outstanding := n\<rparr>)
          (mset (filter (\<lambda>r. \<not> requests_sent r) (queuedRetries s)))) \<and>
    (\<forall>b. Ask_veriflier v b \<in> set (drop (length (outs s)) (outs t)) \<longrightarrow>
       b \<noteq> [] \<and> int (length b) \<le> js_or (VERIFLIER_BATCH_SIZE (conf s)) 200) \<and>
    queuedRetries t =
      map (\<lambda>r. if requests_sent r then r else r\<lparr>requests_sent := True, requests_outstanding := n\<rparr>)
        (filter (\<lambda>r. \<not> requests_sent r \<or> (0 < requests_outstanding r \<and>
             now \<le> last_activity r + TIMEOUT_FOR_REQUESTS_SEC (conf s) * 1000)) (queuedRetries s))"
proof -
  obtain bs ys where o: "outs t = outs s @ concat (map (\<lambda>b. map (\<lambda>v. Ask_veriflier v b) (VERIFIERS (conf s))) bs) @ ys"
    "\<forall>v b. Ask_veriflier v b \<notin> set ys"
    "concat (rev bs) = map (asked (int (length (VERIFIERS (conf s))))) (rev (unsent (queuedRetries s)))"
    "\<forall>b \<in> set bs. b \<noteq> [] \<and> int (length b) \<le> js_or (VERIFLIER_BATCH_SIZE (conf s)) 200"
    using tick_outs [OF assms(2)] by blast
  have a: "asked (int (length (VERIFIERS (conf s)))) = (\<lambda>r. r\<lparr>requests_sent := True, requests_outstanding := n\<rparr>)"
    by (simp add: asked_def n_def fun_eq_iff)
  have m: "mset (concat bs) = image_mset (asked (int (length (VERIFIERS (conf s)))))
          (mset (filter (\<lambda>r. \<not> requests_sent r) (queuedRetries s)))"
    using mset_concat_rev [of bs] o(3) by (simp add: unsent_def)
  have "(\<lambda>r. requests_sent r \<longrightarrow> \<not> finished (conf s) now r) = (\<lambda>r. \<not> requests_sent r \<or> (0 < requests_outstanding r \<and>
           now \<le> last_activity r + TIMEOUT_FOR_REQUESTS_SEC (conf s) * 1000))"
    by (auto simp: finished_def SECONDS_def)
  with o m unasked_sent [OF o(2)] tick_queues(4) [OF assms(2)] mset_sent_all [of v "VERIFIERS (conf s)" bs]
  show ?thesis by (auto simp: kept_def a)
qed

definition failed_site :: "nat \<Rightarrow> site" where
  "failed_site n = (site_of_row (demo_row n))\<lparr>site_status := 0, lastCheck := Some 900,
     checks := replicate 3 \<lparr>check_type = 1, check_host = ''h'', check_status = Whole 0, check_rtt = Whole 5, check_code = Whole 500, check_error_code = Whole 0\<rparr>\<rparr>"

definition master_doubting :: master where
  "master_doubting = fold master_step
     [Worker_msg 1000 (Recheck (failed_site 1)), Worker_msg 1001 (Recheck (failed_site 2))] master_busy"

definition demo_veriflier :: verifier where
  "demo_veriflier = hd (VERIFIERS sample_config)"

theorem tick_asks_every_veriflier_witness:
  "\<exists>t. processQueuedRetries 5000 master_doubting = Some t \<and>
     size (mset (sent_to demo_veriflier (drop (length (outs master_doubting)) (outs t)))) = 2"
proof -
  have b: "VERIFLIER_BATCH_SIZE (conf master_doubting) = Some 200" by code_simp
  have "remote_tick 5000 master_doubting \<noteq> None" unfolding remote_tick_returns by (simp add: b)
  then obtain t where t: "processQueuedRetries 5000 master_doubting = Some t"
    by (auto simp: processQueuedRetries_def)
  have "count_list (VERIFIERS (conf master_doubting)) demo_veriflier = 1" by code_simp
  moreover have "length (filter (\<lambda>r. \<not> requests_sent r) (queuedRetries master_doubting)) = 2" by code_simp
  then have "size {#r \<in># mset (queuedRetries master_doubting). \<not> requests_sent r#} = 2"
    by (metis mset_filter size_mset)
  ultimately have "size (mset (sent_to demo_veriflier (drop (length (outs master_doubting)) (outs t)))) = 2"
    using tick_asks_every_veriflier [OF t, of demo_veriflier] by simp
  with t show ?thesis by blast
qed

text \<open>
  C32. The tick returns exactly when it has nothing to ask or the batch size is not negative: a missing
  or zero VERIFLIER_BATCH_SIZE means 200, a negative one makes the master loop for ever at the
  first entry to be asked about.
\<close>

theorem tick_returns:
  "processQueuedRetries now s \<noteq> None \<longleftrightarrow>
    (\<forall>r \<in> set (queuedRetries s). requests_sent r) \<or>
    (case VERIFLIER_BATCH_SIZE (conf s) of None \<Rightarrow> True | Some n \<Rightarrow> 0 \<le> n)"
proof -
  have "0 < js_or (VERIFLIER_BATCH_SIZE (conf s)) 200 \<longleftrightarrow>
      (case VERIFLIER_BATCH_SIZE (conf s) of None \<Rightarrow> True | Some n \<Rightarrow> 0 \<le> n)"
    by (auto simp: js_or_def split: option.split)
  then show ?thesis
    using remote_tick_returns [of now s]
    by (simp add: processQueuedRetries_def unsent_def filter_empty_conv del: not_None_eq)
qed

definition master_stuck :: master where
  "master_stuck = master_doubting\<lparr>conf := (conf master_doubting)\<lparr>VERIFLIER_BATCH_SIZE := Some (- 1)\<rparr>\<rparr>"

theorem tick_returns_witness: "processQueuedRetries 5000 master_stuck = None"
proof -
  have b: "VERIFLIER_BATCH_SIZE (conf master_stuck) = Some (- 1)" by code_simp
  have q: "\<not> (\<forall>r \<in> set (queuedRetries master_stuck). requests_sent r)" by code_simp
  have "\<not> processQueuedRetries 5000 master_stuck \<noteq> None"
    unfolding tick_returns using b q by simp
  then show ?thesis by blast
qed

lemma multiset_rest: "a + x = b + l \<Longrightarrow> l = x + n \<Longrightarrow> a = b + n" for a b l n x :: "'a multiset"
  by (simp add: ac_simps)

lemma mset_partition: "mset xs = mset (filter P xs) + mset (filter (\<lambda>x. \<not> P x) xs)"
  by (induction xs) simp_all

text \<open>
  C29. TIME_BETWEEN_CHECKS_SEC is kept: the tick leaves in the local retries exactly those sites that
  were checked less than that ago, in their order, and every other one is handed to a worker or
  put into the queue of work; a site that was never checked does not wait.
\<close>

theorem rechecks_wait:
  assumes "master_reachable N s" and "processQueuedRetries now s = Some t"
  shows "localRetries t = filter (\<lambda>sv. case lastCheck sv of None \<Rightarrow> False
        | Some c \<Rightarrow> now < c + TIME_BETWEEN_CHECKS_SEC (conf s) * 1000) (localRetries s) \<and>
    mset (handed t) + mset (arrObjects t) = mset (handed s) + mset (arrObjects s) +
      mset (filter (\<lambda>sv. case lastCheck sv of None \<Rightarrow> True
        | Some c \<Rightarrow> c + TIME_BETWEEN_CHECKS_SEC (conf s) * 1000 \<le> now) (localRetries s))"
proof -
  define w where "w = too_early (conf s) now"
  have w: "w = (\<lambda>sv. case lastCheck sv of None \<Rightarrow> False
        | Some c \<Rightarrow> now < c + TIME_BETWEEN_CHECKS_SEC (conf s) * 1000)"
    by (auto simp: w_def fun_eq_iff too_early_def SECONDS_def split: option.split)
  have nw: "(\<lambda>sv. \<not> w sv) = (\<lambda>sv. case lastCheck sv of None \<Rightarrow> True
        | Some c \<Rightarrow> c + TIME_BETWEEN_CHECKS_SEC (conf s) * 1000 \<le> now)"
    by (auto simp: w fun_eq_iff split: option.split)
  have l: "localRetries t = filter w (localRetries s)" using tick_queues(5) [OF assms(2)] by (simp add: w_def)
  have "tick_inv s" using reachable_parts [OF assms(1)] by (simp add: tick_inv_def)
  from tick_step [OF this assms(2)] have "stock t = stock s" by (simp add: serves_def)
  then have st: "(mset (handed t) + mset (arrObjects t)) + mset (filter w (localRetries s)) =
      (mset (handed s) + mset (arrObjects s)) + mset (localRetries s)"
    unfolding stock_def l .
  have h: "mset (handed t) + mset (arrObjects t) =
      mset (handed s) + mset (arrObjects s) + mset (filter (\<lambda>sv. \<not> w sv) (localRetries s))"
    by (rule multiset_rest [OF st mset_partition])
  show ?thesis using l [unfolded w] h [unfolded nw] by blast
qed

definition once_failed :: "nat \<Rightarrow> site" where
  "once_failed n = (failed_site n)\<lparr>checks := take 1 (checks (failed_site n))\<rparr>"

definition master_waiting :: master where
  "master_waiting = fold master_step
     [Worker_msg 1000 (Recheck (once_failed 1)),
      Worker_msg 1001 (Recheck ((once_failed 2)\<lparr>lastCheck := Some 20000\<rparr>))] master_busy"

lemma master_waiting_reachable: "master_reachable 3 master_waiting"
proof -
  have "ms.admissible 3 [Worker_msg 1000 (Recheck (once_failed 1)),
      Worker_msg 1001 (Recheck ((once_failed 2)\<lparr>lastCheck := Some 20000\<rparr>))] master_busy"
    by (simp add: by_workers_def once_failed_def failed_site_def JETMON_CHECK_def SITE_DOWN_def del: master_step.simps)
  from reachable_master_run [OF master_busy_reachable this] show ?thesis by (simp add: master_waiting_def)
qed

theorem rechecks_wait_witness:
  "\<exists>t. processQueuedRetries 31000 master_waiting = Some t \<and> map blog_id (localRetries t) = [2]"
proof -
  have "VERIFLIER_BATCH_SIZE (conf master_waiting) = Some 200" by code_simp
  then have "remote_tick 31000 master_waiting \<noteq> None" unfolding remote_tick_returns by simp
  then obtain t where t: "processQueuedRetries 31000 master_waiting = Some t"
    by (auto simp: processQueuedRetries_def)
  have "map blog_id (filter (\<lambda>sv. case lastCheck sv of None \<Rightarrow> False
        | Some c \<Rightarrow> 31000 < c + TIME_BETWEEN_CHECKS_SEC (conf master_waiting) * 1000) (localRetries master_waiting)) = [2]"
    by code_simp
  with rechecks_wait [OF master_waiting_reachable t] t show ?thesis by simp
qed

section \<open>The queues\<close>

text \<open>
  C17. NUM_OF_CHECKS is kept: in every reachable state a site the verifliers are asked about has failed
  at least as many checks of this host's workers, its confirmations are the answers that said it
  is offline, it is marked as down exactly from PEER_OFFLINE_LIMIT confirmations on, and no site is
  waiting for a local recheck twice.
\<close>

theorem doubted_sites_were_checked:
  assumes "master_reachable N s"
  shows "(\<forall>r \<in> set (queuedRetries s). N \<le> int (local_failures (checks r)) \<and>
      offline_confirms r = int (offline_answers (checks r)) \<and>
      (retry_site_status r = Some SITE_DOWN \<longleftrightarrow> 0 < offline_confirms r \<and> peerLimit s \<le> offline_confirms r)) \<and>
    distinct (map site_id (localRetries s))"
  using reachable_parts [OF assms] by (auto simp: queues_inv_def entry_inv_def)

lemma master_doubting_reachable: "master_reachable 3 master_doubting"
proof -
  have "ms.admissible 3 [Worker_msg 1000 (Recheck (failed_site 1)), Worker_msg 1001 (Recheck (failed_site 2))] master_busy"
    by (simp add: by_workers_def failed_site_def JETMON_CHECK_def SITE_DOWN_def del: master_step.simps)
  from reachable_master_run [OF master_busy_reachable this] show ?thesis by (simp add: master_doubting_def)
qed

theorem doubted_sites_were_checked_witness:
  "length (queuedRetries master_doubting) = 2 \<and>
   3 \<le> int (local_failures (checks (queuedRetries master_doubting ! 1)))"
proof -
  have l: "length (queuedRetries master_doubting) = 2" by code_simp
  then have "queuedRetries master_doubting ! 1 \<in> set (queuedRetries master_doubting)" by simp
  with l doubted_sites_were_checked [OF master_doubting_reachable] show ?thesis by blast
qed

section \<open>Notices\<close>

definition notices :: "out list \<Rightarrow> notice list" where
  "notices xs = concat (map (\<lambda>x. case x of Notify nt \<Rightarrow> [nt] | _ \<Rightarrow> []) xs)"

lemma notices_simps [simp]:
  "notices [] = []" "notices (xs @ ys) = notices xs @ notices ys"
  "notices (map Db_call calls) = []" "notices [Notify nt] = [nt]"
  by (induction calls) (simp_all add: notices_def)

lemma set_notices: "nt \<in> set (notices xs) \<longleftrightarrow> Notify nt \<in> set xs"
  by (force simp: notices_def split: out.split)

text \<open>What a notice made for a veriflier's answer must show.\<close>

definition confirmed :: "int \<Rightarrow> int \<Rightarrow> out \<Rightarrow> bool" where
  "confirmed N limit x = (case x of
      Notify nt \<Rightarrow> n_status_id nt = SITE_DOWN \<and> limit \<le> int (offline_answers (n_checks nt)) \<and>
        1 \<le> offline_answers (n_checks nt) \<and> N \<le> int (local_failures (n_checks nt))
    | _ \<Rightarrow> True)"

definition confirms :: "int \<Rightarrow> master \<Rightarrow> master \<Rightarrow> bool" where
  "confirms N s t \<longleftrightarrow> peerLimit t = peerLimit s \<and>
     (\<exists>xs. outs t = outs s @ xs \<and> (\<forall>x \<in> set xs. confirmed N (peerLimit s) x))"

lemma confirms_trans:
  assumes "confirms N s t" and "confirms N t u"
  shows "confirms N s u"
proof -
  obtain xs ys where "outs t = outs s @ xs" "\<forall>x \<in> set xs. confirmed N (peerLimit s) x"
      "outs u = outs t @ ys" "\<forall>x \<in> set ys. confirmed N (peerLimit t) x" "peerLimit t = peerLimit s"
    using assms by (auto simp: confirms_def)
  then have "outs u = outs s @ (xs @ ys) \<and> (\<forall>x \<in> set (xs @ ys). confirmed N (peerLimit s) x)" by auto
  then have "\<exists>zs. outs u = outs s @ zs \<and> (\<forall>x \<in> set zs. confirmed N (peerLimit s) x)" by blast
  with assms show ?thesis by (simp add: confirms_def)
qed

lemma notify_outs:
  "\<exists>calls. outs (notify srv st s) = outs s @ map Db_call calls @ [Notify (notice_of (conf s) srv st)]"
proof -
  obtain d calls n where n: "notifyStatusChange (conf s) srv st (database s) = (d, calls, n)"
    by (metis surj_pair)
  then have "n = notice_of (conf s) srv st" by (simp add: notifyStatusChange_def Let_def split_beta)
  with n show ?thesis by (auto simp: notify_def)
qed

lemma announce_outs:
  "\<exists>calls. outs (announce k srv st s) = outs s @ map Db_call calls @ [Notify (notice_of (conf s) srv st)]"
  using notify_outs [of srv st "s\<lparr>openNotices := openNotices s @ [told_of k srv st]\<rparr>"]
  by (simp add: announce_def)

lemma confirms_checkHostStatus:
  assumes "queues_inv N s"
  shows "confirms N s (fst (checkHostStatus h d now s))"
proof (cases "entry_at d (queuedRetries s)")
  case None
  then show ?thesis by (simp add: check_unknown confirms_def)
next
  case (Some i)
  define r where "r = answered (peerLimit s) h d now (queuedRetries s ! i)"
  define u where "u = take_in i r s"
  have u: "outs u = outs s" "peerLimit u = peerLimit s" by (simp_all add: u_def take_in_def Let_def)
  have e0: "entry_inv N (peerLimit s) (queuedRetries s ! i)"
    using entry_at_Some [OF Some] assms by (simp add: queues_inv_def)
  then have e: "entry_inv N (peerLimit s) r" unfolding r_def by (rule answered_inv)
  note st = check_known(1) [OF Some, of h now, folded r_def, unfolded Let_def, folded u_def]
  show ?thesis
  proof (cases "is_offline d \<and> peerLimit s \<le> offline_confirms r")
    case True
    have "1 \<le> offline_answers (checks r)"
      using True e0 e answered_fields(3) [of "peerLimit s" h d now "queuedRetries s ! i"]
      by (simp add: entry_inv_def r_def [symmetric])
    then have "confirmed N (peerLimit s) (Notify (notice_of (conf u) r SITE_DOWN))"
      using True e by (simp add: confirmed_def notice_of_def entry_inv_def)
    moreover have "\<forall>x \<in> set (map Db_call calls). confirmed N (peerLimit s) x" for calls
      by (simp add: confirmed_def)
    ultimately show ?thesis
      using st True announce_outs [of "Some (retry_no r)" r SITE_DOWN u] u by (auto simp: confirms_def)
  next
    case False
    have "fst (checkHostStatus h d now s) = u" by (simp only: st False if_False)
    then show ?thesis using u by (simp add: confirms_def)
  qed
qed

lemma confirms_ssl:
  assumes "queues_inv N s"
  shows "confirms N s (sslWorkerCallBack now m s)"
proof (cases m)
  case (Host_status_array h ds)
  define P where "P u \<longleftrightarrow> queues_inv N u \<and> confirms N s u" for u
  have "P s" using assms by (simp add: P_def confirms_def)
  then have "P (check_each h now ds s)"
    by (rule check_each_inv)
      (auto simp: P_def intro: queues_checkHostStatus confirms_trans confirms_checkHostStatus)
  with Host_status_array show ?thesis by (simp add: P_def)
next
  case (Host_status h d)
  with confirms_checkHostStatus [OF assms] show ?thesis by simp
qed (simp add: confirms_def)

text \<open>
  C1. A veriflier's answer makes WPCOM hear that a site is down only after enough confirmations: every
  notice that follows it carries at least PEER_OFFLINE_LIMIT answers of verifliers that found the
  site offline, and at least NUM_OF_CHECKS checks in which a worker of this host found it down.
\<close>

theorem down_notices_are_confirmed:
  assumes "master_reachable N s" and "Notify nt \<in> set (effects (Ssl_msg now m) s)"
  shows "n_status_id nt = SITE_DOWN \<and> peerLimit s \<le> int (offline_answers (n_checks nt)) \<and>
    1 \<le> offline_answers (n_checks nt) \<and> N \<le> int (local_failures (n_checks nt))"
proof -
  have "queues_inv N s" using reachable_parts [OF assms(1)] by simp
  from confirms_ssl [OF this, of now m] obtain xs where
    "outs (master_step (Ssl_msg now m) s) = outs s @ xs" "\<forall>x \<in> set xs. confirmed N (peerLimit s) x"
    by (auto simp: confirms_def)
  with assms(2) have "confirmed N (peerLimit s) (Notify nt)" using effectsI by metis
  then show ?thesis by (simp add: confirmed_def)
qed

definition offline_answer :: host_status where
  "offline_answer = \<lparr>hs_blog_id = \<lambda>b. Inr (b = 1), hs_monitor_url = \<lambda>u. Inr (u = ''u''),
     hs_status = Whole 0, hs_rtt = Whole 9, hs_code = Whole 500, hs_error_code = Undefined\<rparr>"

theorem down_notices_are_confirmed_witness:
  "\<exists>nt. Notify nt \<in> set (effects (Ssl_msg 2000 (Host_status_array ''v'' (replicate 3 offline_answer))) master_doubting) \<and>
     n_status_id nt = SITE_DOWN \<and> 3 \<le> int (local_failures (n_checks nt))"
proof -
  have "notices (effects (Ssl_msg 2000 (Host_status_array ''v'' (replicate 3 offline_answer))) master_doubting) \<noteq> []"
    by code_simp
  then obtain nt where n: "Notify nt \<in> set (effects (Ssl_msg 2000 (Host_status_array ''v'' (replicate 3 offline_answer))) master_doubting)"
    unfolding set_notices [symmetric] by (meson last_in_set)
  with down_notices_are_confirmed [OF master_doubting_reachable n] show ?thesis by blast
qed

text \<open>The number of notices that \<open>k\<close> more offline answers cause, from \<open>c\<close> confirmations on.\<close>

definition repeated :: "int \<Rightarrow> int \<Rightarrow> nat \<Rightarrow> nat" where
  "repeated limit c k = length (filter (\<lambda>j. limit \<le> c + int j) [1 ..< Suc k])"

lemma repeated_Suc: "repeated limit c (Suc k) = (if limit \<le> c + 1 then 1 else 0) + repeated limit (c + 1) k"
proof -
  have e: "[1 ..< Suc (Suc k)] = 1 # map Suc [1 ..< Suc k]"
    by (metis One_nat_def Suc_le_eq map_Suc_upt upt_conv_Cons zero_less_Suc Suc_le_mono)
  show ?thesis unfolding repeated_def e by (simp add: filter_map o_def algebra_simps)
qed

lemma entry_at_update:
  "entry_at d q = Some i \<Longrightarrow> answers d r = Inr True \<Longrightarrow> entry_at d (q[i := r]) = Some i"
proof (induction q arbitrary: i)
  case (Cons a q)
  then show ?case by (cases i) (auto split: if_splits sum.splits)
qed simp

lemma answers_answered: "answers d (answered limit h d' now r) = answers d r"
  by (simp add: answers_def answered_fields cong: if_cong)

lemma answer_offline:
  fixes h :: string and now :: int
  assumes "entry_at d (queuedRetries s) = Some i" and "is_offline d"
  defines "t \<equiv> fst (checkHostStatus h d now s)"
  shows "entry_at d (queuedRetries t) = Some i" and "peerLimit t = peerLimit s"
    and "offline_confirms (queuedRetries t ! i) = offline_confirms (queuedRetries s ! i) + 1"
    and "\<exists>xs. outs t = outs s @ xs \<and>
      length (notices xs) = (if peerLimit s \<le> offline_confirms (queuedRetries s ! i) + 1 then 1 else 0)"
proof -
  define q where "q = queuedRetries s"
  define r where "r = answered (peerLimit s) h d now (q ! i)"
  define u where "u = take_in i r s"
  have u: "queuedRetries u = q[i := r]" "peerLimit u = peerLimit s" "outs u = outs s"
    by (simp_all add: u_def q_def take_in_def Let_def)
  have i: "i < length q" "answers d (q ! i) = Inr True"
    using entry_at_Some [OF assms(1)] by (simp_all add: q_def)
  have r: "offline_confirms r = offline_confirms (q ! i) + 1" "answers d r = Inr True"
    using assms(2) i(2) by (simp_all add: r_def answered_fields answers_answered)
  have t: "t = (if peerLimit s \<le> offline_confirms r then announce (Some (retry_no r)) r SITE_DOWN u else u)"
    using check_known(1) [OF assms(1), of h now] assms(2)
    by (simp add: t_def q_def [symmetric] r_def [symmetric] u_def Let_def)
  show "entry_at d (queuedRetries t) = Some i"
    using entry_at_update [OF assms(1) r(2)] by (simp add: t u q_def)
  show "peerLimit t = peerLimit s" by (simp add: t u)
  show "offline_confirms (queuedRetries t ! i) = offline_confirms (queuedRetries s ! i) + 1"
    using i(1) r(1) by (simp add: t u q_def)
  show "\<exists>xs. outs t = outs s @ xs \<and>
      length (notices xs) = (if peerLimit s \<le> offline_confirms (queuedRetries s ! i) + 1 then 1 else 0)"
    using announce_outs [of "Some (retry_no r)" r SITE_DOWN u] r(1) by (auto simp: t u q_def)
qed

lemma answers_offline:
  "entry_at d (queuedRetries s) = Some i \<Longrightarrow> is_offline d \<Longrightarrow>
   offline_confirms (queuedRetries (check_each h now (replicate k d) s) ! i) =
     offline_confirms (queuedRetries s ! i) + int k \<and>
   (\<exists>xs. outs (check_each h now (replicate k d) s) = outs s @ xs \<and>
      length (notices xs) = repeated (peerLimit s) (offline_confirms (queuedRetries s ! i)) k)"
proof (induction k arbitrary: s)
  case 0
  then show ?case by (simp add: repeated_def)
next
  case (Suc k)
  define c where "c = offline_confirms (queuedRetries s ! i)"
  define u where "u = fst (checkHostStatus h d now s)"
  note a = answer_offline [OF Suc.prems, of h now, folded u_def c_def]
  define t where "t = check_each h now (replicate k d) u"
  from Suc.IH [OF a(1) Suc.prems(2), folded t_def] a(2,3)
  obtain ys where y: "offline_confirms (queuedRetries t ! i) = c + 1 + int k" "outs t = outs u @ ys"
      "length (notices ys) = repeated (peerLimit s) (c + 1) k"
    by auto
  obtain xs where x: "outs u = outs s @ xs" "length (notices xs) = (if peerLimit s \<le> c + 1 then 1 else 0)"
    using a(4) by blast
  have "outs t = outs s @ (xs @ ys)" "length (notices (xs @ ys)) = repeated (peerLimit s) c (Suc k)"
    using x y by (simp_all add: repeated_Suc)
  moreover have "checkHostStatus h d now s = (u, None)"
    using check_known(2) [OF Suc.prems, of h now] by (simp add: u_def prod_eq_iff)
  then have "check_each h now (replicate (Suc k) d) s = t" by (simp add: t_def)
  ultimately show ?case using y(1) by (auto simp: c_def [symmetric])
qed

text \<open>
  C33. PEER_OFFLINE_LIMIT counts answers and not verifliers: one veriflier that names an offline site
  \<open>k\<close> times raises the confirmations by \<open>k\<close>, and from the limit on every further answer sends WPCOM
  the same news again.
\<close>

theorem one_veriflier_confirms_alone:
  fixes h :: string and now :: int and k :: nat
  assumes "entry_at d (queuedRetries s) = Some i" and "found_offline (hs_status d) = Inr True"
  defines "c \<equiv> offline_confirms (queuedRetries s ! i)"
    and "t \<equiv> sslWorkerCallBack now (Host_status_array h (replicate k d)) s"
  shows "offline_confirms (queuedRetries t ! i) = c + int k \<and>
    (\<exists>xs. outs t = outs s @ xs \<and> length (notices xs) = repeated (peerLimit s) c k)"
  using answers_offline [OF assms(1), of h now k] assms(2) by (simp add: is_offline_def c_def t_def)

theorem one_veriflier_confirms_alone_witness:
  "peerLimit master_doubting = 3 \<and>
   (\<exists>xs. outs (sslWorkerCallBack 2000 (Host_status_array ''v'' (replicate 5 offline_answer)) master_doubting) =
      outs master_doubting @ xs \<and> length (notices xs) = 3)"
proof -
  have e: "entry_at offline_answer (queuedRetries master_doubting) = Some 0" by code_simp
  have c: "offline_confirms (queuedRetries master_doubting ! 0) = 0" "peerLimit master_doubting = 3" by code_simp+
  have h: "found_offline (hs_status offline_answer) = Inr True" by (simp add: offline_answer_def const_defs)
  have "repeated 3 0 5 = 3" by (simp add: repeated_def upt_rec)
  with one_veriflier_confirms_alone [OF e h, of 2000 "''v''" 5] c show ?thesis by simp
qed

text \<open>
  PEER_OFFLINE_LIMIT is read once, when the process starts: no event changes the limit, a reload
  of the configuration included, although the reload is passed on to every worker.
\<close>

theorem reload_keeps_the_limit:
  "peerLimit (fold master_step es (ensure_worker_count fresh True (boot_master c now))) =
     (case PEER_OFFLINE_LIMIT c of None \<Rightarrow> 3 | Some n \<Rightarrow> if n = 0 then 3 else n) \<and>
   (\<forall>c' s. outs (master_step (Reload (Some c')) s) = outs s @ Stat (Increment ''config_reload.count'' (VInt 1)) #
      map (\<lambda>w. To_worker (proc_pid w) Config_update) (arrWorkers s) \<and>
      conf (master_step (Reload (Some c')) s) = c')"
proof -
  have "peerLimit (fold master_step es s) = peerLimit s" for s
    by (induction es arbitrary: s) (simp_all add: peerLimit_step del: master_step.simps)
  moreover have "peerLimit (ensure_worker_count fresh True (boot_master c now)) = peerLimit (boot_master c now)"
    using same_retries_ensure by (simp add: same_retries_def)
  moreover have "outs (fold (\<lambda>w. emit (To_worker (proc_pid w) Config_update)) ws u) =
      outs u @ map (\<lambda>w. To_worker (proc_pid w) Config_update) ws" for ws :: "proc list" and u
    by (induction ws arbitrary: u) simp_all
  then have "outs (master_step (Reload (Some c')) s) = outs s @ Stat (Increment ''config_reload.count'' (VInt 1)) #
      map (\<lambda>w. To_worker (proc_pid w) Config_update) (arrWorkers s)" for c' s
    by (simp add: reload_signal_def Let_def)
  ultimately show ?thesis
    using step_conf_reload by (simp add: boot_master_def js_or_def split: option.split)
qed

end
