(* ===== verification/Notices.thy ===== *)
theory Notices
  imports Retry_Properties
begin

text \<open>
  The notices that may be sent again: what the callback of a notice to WPCOM still knows of it when the
  request fails.  Its object may be one of the veriflier queue's, which goes on collecting answers, and
  which the callback goes on seeing.
\<close>

section \<open>Repeated notices\<close>

text \<open>\<open>nt\<close> is \<open>nt0\<close> once more, with the answers that have come in since.\<close>

definition repeats :: "notice \<Rightarrow> notice \<Rightarrow> bool" where
  "repeats nt0 nt \<longleftrightarrow> n_blog_id nt = n_blog_id nt0 \<and> n_monitor_url nt = n_monitor_url nt0 \<and>
     n_status_id nt = n_status_id nt0 \<and> n_last_check nt = n_last_check nt0 \<and>
     n_last_status_change nt = n_last_status_change nt0 \<and>
     (\<exists>cs. n_checks nt = n_checks nt0 @ cs \<and> (\<forall>c \<in> set cs. check_type c = VERIFLIER_CHECK))"

definition backed :: "int \<Rightarrow> int \<Rightarrow> check list \<Rightarrow> bool" where
  "backed N limit cs \<longleftrightarrow> limit \<le> int (offline_answers cs) \<and> 1 \<le> offline_answers cs \<and> N \<le> int (local_failures cs)"

lemma backed_more: "backed N limit cs \<Longrightarrow> backed N limit (cs @ ds)"
  by (simp add: backed_def offline_answers_def local_failures_def)

text \<open>What an open notice tells now.\<close>

definition tells :: "config \<Rightarrow> told \<Rightarrow> notice" where
  "tells c t = notice_of c t (told_status t)"

lemma tells_conf:
  "repeats nt0 (tells c t) \<longleftrightarrow> repeats nt0 (tells c' t)"
  by (simp add: repeats_def tells_def notice_of_def)

lemma repeats_told: "repeats (notice_of c srv st) (tells c' (told_of k srv st))"
  by (simp add: repeats_def tells_def notice_of_def told_of_def)

lemma repeats_more:
  assumes "repeats nt0 (tells c t)" and "\<forall>x \<in> set cs. check_type x = VERIFLIER_CHECK"
  shows "repeats nt0 (tells c (t\<lparr>checks := checks t @ cs\<rparr>))"
  using assms by (auto simp: repeats_def tells_def notice_of_def)

section \<open>The invariant\<close>

definition told_ok :: "int \<Rightarrow> master \<Rightarrow> told \<Rightarrow> bool" where
  "told_ok N s t \<longleftrightarrow> (\<exists>nt0. Notify nt0 \<in> set (outs s) \<and> repeats nt0 (tells (conf s) t)) \<and>
     (\<forall>k. told_entry t = Some k \<longrightarrow>
        k < retryCount s \<and> told_status t = SITE_DOWN \<and> backed N (peerLimit s) (checks t) \<and>
        (\<forall>r \<in> set (queuedRetries s). retry_no r = k \<longrightarrow> checks r = checks t))"

definition numbered :: "master \<Rightarrow> bool" where
  "numbered s \<longleftrightarrow> distinct (map retry_no (queuedRetries s)) \<and>
     (\<forall>r \<in> set (queuedRetries s). retry_no r < retryCount s)"

lemma numbered_alt:
  "numbered s \<longleftrightarrow> distinct (map retry_no (queuedRetries s)) \<and>
     (\<forall>n \<in> set (map retry_no (queuedRetries s)). n < retryCount s)"
  by (simp add: numbered_def)

definition notes_inv :: "int \<Rightarrow> master \<Rightarrow> bool" where
  "notes_inv N s \<longleftrightarrow> numbered s \<and> (\<forall>t \<in> set (openNotices s). told_ok N s t)"

lemma told_ok_mono:
  assumes "told_ok N s t" and "set (outs s) \<subseteq> set (outs u)" and "retryCount s \<le> retryCount u"
    and "peerLimit u = peerLimit s"
    and "\<And>r. r \<in> set (queuedRetries u) \<Longrightarrow> retry_no r < retryCount s \<Longrightarrow>
      \<exists>r0 \<in> set (queuedRetries s). retry_no r0 = retry_no r \<and> checks r0 = checks r"
  shows "told_ok N u t"
proof -
  have "\<exists>nt0. Notify nt0 \<in> set (outs u) \<and> repeats nt0 (tells (conf u) t)"
    using assms(1,2) tells_conf [of _ "conf s" t "conf u"] unfolding told_ok_def by blast
  moreover have "checks r = checks t"
    if "told_entry t = Some k" "r \<in> set (queuedRetries u)" "retry_no r = k" for k r
    using assms(1) assms(5) [of r] that unfolding told_ok_def by fastforce
  ultimately show ?thesis using assms(1,3,4) by (fastforce simp: told_ok_def)
qed

text \<open>Effects that leave the numbered objects and the open notices alone.\<close>

lemma notes_frame:
  assumes "notes_inv N s" and "set (outs s) \<subseteq> set (outs t)" and "queuedRetries t = queuedRetries s"
    and "retryCount t = retryCount s" and "peerLimit t = peerLimit s" and "openNotices t = openNotices s"
  shows "notes_inv N t"
proof -
  have "told_ok N t x" if "x \<in> set (openNotices s)" for x
    by (rule told_ok_mono [of N s]) (use assms that in \<open>auto simp: notes_inv_def\<close>)
  with assms show ?thesis by (simp add: notes_inv_def numbered_def)
qed

lemma notes_same:
  "same_retries s t \<Longrightarrow> set (outs s) \<subseteq> set (outs t) \<Longrightarrow> notes_inv N s \<Longrightarrow> notes_inv N t"
  by (erule notes_frame) (simp_all add: same_retries_def)

lemma outs_step: "set (outs s) \<subseteq> set (outs (master_step e s))"
  using emits_step [of e s] by (auto simp: emits_def)

section \<open>Announcements\<close>

lemma notes_announce:
  assumes "notes_inv N s"
    and "\<And>k. key = Some k \<Longrightarrow> k < retryCount s \<and> st = SITE_DOWN \<and> backed N (peerLimit s) (checks srv) \<and>
      (\<forall>r \<in> set (queuedRetries s). retry_no r = k \<longrightarrow> checks r = checks srv)"
  shows "notes_inv N (announce key srv st s)"
proof -
  obtain calls where o: "outs (announce key srv st s) = outs s @ map Db_call calls @ [Notify (notice_of (conf s) srv st)]"
    using announce_outs by blast
  have "told_ok N (announce key srv st s) t" if "t \<in> set (openNotices s)" for t
    by (rule told_ok_mono [of N s]) (use assms(1) that o in \<open>auto simp: notes_inv_def\<close>)
  moreover have "told_ok N (announce key srv st s) (told_of key srv st)"
    using assms(2) o repeats_told [of "conf s" srv st "conf s" key]
    by (fastforce simp: told_ok_def told_of_def)
  ultimately show ?thesis using assms(1) by (simp add: notes_inv_def numbered_def)
qed

section \<open>Answers\<close>

definition seen :: "retry list \<Rightarrow> told \<Rightarrow> told" where
  "seen q t = (case find (\<lambda>r. told_entry t = Some (retry_no r)) q of None \<Rightarrow> t | Some r \<Rightarrow> t\<lparr>checks := checks r\<rparr>)"

lemma refresh_seen: "refresh q = map (seen q)"
  by (simp add: refresh_def seen_def fun_eq_iff)

lemma find_cases:
  assumes "find P xs = Some x"
  shows "x \<in> set xs \<and> P x"
  using assms by (metis find_Some_iff nth_mem)

lemma seen_same:
  assumes "told_ok N s t"
  shows "seen (queuedRetries s) t = t"
proof (cases "find (\<lambda>r. told_entry t = Some (retry_no r)) (queuedRetries s)")
  case (Some r)
  from find_cases [OF this] assms have "checks r = checks t" by (auto simp: told_ok_def)
  with Some show ?thesis by (simp add: seen_def)
qed (simp add: seen_def)

lemma notes_unchanged: "notes_inv N s \<Longrightarrow> refresh (queuedRetries s) (openNotices s) = openNotices s"
  by (auto simp: notes_inv_def refresh_seen intro: map_idI seen_same)

lemma answered_checks:
  "\<exists>c. checks (answered limit h d now r) = checks r @ [c] \<and> check_type c = VERIFLIER_CHECK"
  by (simp add: answered_def take_answer_def Let_def)

lemma same_numbers:
  "i < length q \<Longrightarrow> retry_no r = retry_no (q ! i) \<Longrightarrow> map retry_no (q[i := r]) = map retry_no q"
  by (rule nth_equalityI) (auto simp: nth_list_update)

text \<open>An open notice of the object an answer is about sees the answer; the others stay as they are.\<close>

lemma told_ok_seen:
  fixes h :: string and d :: host_status and now :: int
  assumes "notes_inv N s" and "i < length (queuedRetries s)" and "told_ok N s t"
  defines "r \<equiv> answered (peerLimit s) h d now (queuedRetries s ! i)"
  defines "u \<equiv> take_in i r s"
  shows "told_ok N u (seen (queuedRetries u) t)"
proof -
  define q where "q = queuedRetries s"
  have u: "queuedRetries u = q[i := r]" "outs u = outs s" "retryCount u = retryCount s"
      "peerLimit u = peerLimit s" "conf u = conf s"
    by (simp_all add: u_def q_def take_in_def Let_def)
  have rn: "retry_no r = retry_no (q ! i)" by (simp add: r_def q_def answered_fields)
  obtain c where c: "checks r = checks (q ! i) @ [c]" "check_type c = VERIFLIER_CHECK"
    using answered_checks unfolding r_def q_def by blast
  have i: "i < length q" "q ! i \<in> set q" using assms(2) by (simp_all add: q_def)
  have dq: "distinct (map retry_no (q[i := r]))" "distinct (map retry_no q)"
    using assms(1) by (simp_all only: same_numbers [OF i(1) rn]) (simp_all add: notes_inv_def numbered_def q_def)
  have ri: "r \<in> set (q[i := r])" using i by (simp add: set_update_memI)
  have only: "x = r" if "x \<in> set (q[i := r])" "retry_no x = retry_no r" for x
    using dq(1) that ri by (auto simp: distinct_map inj_on_def)
  have old: "x = r \<or> x \<in> set q" if "x \<in> set (q[i := r])" for x
    using that set_update_subset_insert by fastforce
  show ?thesis
  proof (cases "told_entry t = Some (retry_no r)")
    case True
    have "find (\<lambda>x. told_entry t = Some (retry_no x)) (q[i := r]) \<noteq> None"
      using ri True by (auto simp: find_None_iff)
    then obtain x where f: "find (\<lambda>x. told_entry t = Some (retry_no x)) (q[i := r]) = Some x" by blast
    from find_cases [OF f] True have "x = r" using only by simp
    moreover have t: "checks (q ! i) = checks t" using assms(3) True i(2) rn by (auto simp: told_ok_def q_def)
    ultimately have s: "seen (queuedRetries u) t = t\<lparr>checks := checks t @ [c]\<rparr>"
      using f c by (simp add: seen_def u)
    have "\<forall>x \<in> set (q[i := r]). retry_no x = retry_no r \<longrightarrow> checks x = checks t @ [c]"
      using only c t by auto
    then show ?thesis
      using assms(3) True backed_more repeats_more [of _ _ t "[c]"] c(2) unfolding s
      by (fastforce simp: told_ok_def u)
  next
    case False
    have "told_ok N u t"
      unfolding told_ok_def
    proof (intro conjI allI impI)
      fix k assume k: "told_entry t = Some k"
      show "k < retryCount u" "told_status t = SITE_DOWN" "backed N (peerLimit u) (checks t)"
        using assms(3) k by (simp_all add: told_ok_def u)
      show "\<forall>x \<in> set (queuedRetries u). retry_no x = k \<longrightarrow> checks x = checks t"
        using assms(3) k False old by (auto simp: told_ok_def u q_def)
    qed (use assms(3) in \<open>simp add: told_ok_def u\<close>)
    with seen_same [OF this] show ?thesis by simp
  qed
qed

lemma notes_take_in:
  assumes "notes_inv N s" and "i < length (queuedRetries s)"
  shows "notes_inv N (take_in i (answered (peerLimit s) h d now (queuedRetries s ! i)) s)"
proof -
  define r where "r = answered (peerLimit s) h d now (queuedRetries s ! i)"
  have "retry_no r = retry_no (queuedRetries s ! i)" by (simp add: r_def answered_fields)
  from same_numbers [OF assms(2) this] have "numbered (take_in i r s) = numbered s"
    by (simp add: numbered_alt take_in_def Let_def del: set_map)
  then have "numbered (take_in i r s)" using assms(1) by (simp add: notes_inv_def)
  moreover have "told_ok N (take_in i r s) t" if "t \<in> set (openNotices (take_in i r s))" for t
    using told_ok_seen [OF assms, of _ h d now, folded r_def] assms(1) that
    by (auto simp: take_in_def refresh_seen notes_inv_def Let_def)
  ultimately show ?thesis by (simp add: notes_inv_def r_def)
qed

lemma notes_checkHostStatus:
  assumes "notes_inv N s" and "queues_inv N s"
  shows "notes_inv N (fst (checkHostStatus h d now s))"
proof (cases "entry_at d (queuedRetries s)")
  case None
  have "s\<lparr>openNotices := openNotices s\<rparr> = s" by simp
  with None assms(1) show ?thesis by (simp add: check_unknown notes_unchanged)
next
  case (Some i)
  define r where "r = answered (peerLimit s) h d now (queuedRetries s ! i)"
  define u where "u = take_in i r s"
  have i: "i < length (queuedRetries s)" using entry_at_Some [OF Some] by simp
  have u: "notes_inv N u" unfolding u_def r_def by (rule notes_take_in [OF assms(1) i])
  have uf: "queuedRetries u = (queuedRetries s)[i := r]" "peerLimit u = peerLimit s"
    by (simp_all add: u_def take_in_def Let_def)
  then have ri: "r \<in> set (queuedRetries u)" using i by (simp add: set_update_memI)
  have e0: "entry_inv N (peerLimit s) (queuedRetries s ! i)" using i assms(2) by (simp add: queues_inv_def)
  then have e: "entry_inv N (peerLimit s) r" unfolding r_def by (rule answered_inv)
  have "notes_inv N (announce (Some (retry_no r)) r SITE_DOWN u)"
    if "is_offline d" "peerLimit s \<le> offline_confirms r"
  proof (rule notes_announce [OF u])
    fix k assume "Some (retry_no r) = Some k"
    then have k: "k = retry_no r" by simp
    have uq: "distinct (map retry_no (queuedRetries u))" "retry_no r < retryCount u"
      using u ri by (simp_all add: notes_inv_def numbered_def)
    have "backed N (peerLimit u) (checks r)"
      using that e0 e answered_fields(3) [of "peerLimit s" h d now "queuedRetries s ! i"]
      by (simp add: entry_inv_def backed_def uf r_def [symmetric])
    moreover have "x = r" if "x \<in> set (queuedRetries u)" "retry_no x = k" for x
      using uq(1) ri that k by (auto simp: distinct_map inj_on_def)
    ultimately show "k < retryCount u \<and> SITE_DOWN = SITE_DOWN \<and> backed N (peerLimit u) (checks r) \<and>
        (\<forall>x \<in> set (queuedRetries u). retry_no x = k \<longrightarrow> checks x = checks r)"
      using uq(2) k by blast
  qed
  with u show ?thesis
    using check_known(1) [OF Some, of h now] by (simp add: r_def [symmetric] u_def [symmetric] Let_def)
qed

lemma notes_ssl:
  assumes "notes_inv N s" and "queues_inv N s"
  shows "notes_inv N (sslWorkerCallBack now m s)"
proof (cases m)
  case (Host_status_array h ds)
  define P where "P u \<longleftrightarrow> notes_inv N u \<and> queues_inv N u" for u
  have "P s" using assms by (simp add: P_def)
  then have "P (check_each h now ds s)"
    by (rule check_each_inv) (auto simp: P_def intro: queues_checkHostStatus notes_checkHostStatus)
  with Host_status_array show ?thesis by (simp add: P_def)
qed (use assms notes_checkHostStatus in auto)

section \<open>The other events\<close>

lemma notes_recheck:
  assumes "notes_inv N s"
  shows "notes_inv N (recheck now sv s)"
proof (cases "int (length (checks sv)) < NUM_OF_CHECKS (conf s)")
  case True
  then show ?thesis using assms
    by (simp add: recheck_def add_server_to_local_retries_def notes_frame)
next
  case False
  have "told_ok N (host_check_request now sv s) t" if "t \<in> set (openNotices s)" for t
    by (rule told_ok_mono [of N s]) (use assms that in \<open>auto simp: notes_inv_def host_check_request_def\<close>)
  moreover have "numbered (host_check_request now sv s)"
    using assms by (auto simp: notes_inv_def numbered_def host_check_request_def)
  ultimately show ?thesis using False
    by (simp add: notes_inv_def recheck_def) (simp add: host_check_request_def)
qed

lemma kept_numbers:
  "set (map retry_no (kept c now q)) \<subseteq> set (map retry_no q)"
  "distinct (map retry_no q) \<Longrightarrow> distinct (map retry_no (kept c now q))"
  "r \<in> set (kept c now q) \<Longrightarrow> \<exists>r0 \<in> set q. retry_no r0 = retry_no r \<and> checks r0 = checks r"
proof -
  have "map retry_no (kept c now q) = map retry_no (filter (\<lambda>r. requests_sent r \<longrightarrow> \<not> finished c now r) q)"
    by (simp add: kept_def asked_def)
  then show "set (map retry_no (kept c now q)) \<subseteq> set (map retry_no q)"
    "distinct (map retry_no q) \<Longrightarrow> distinct (map retry_no (kept c now q))"
    by (auto simp: distinct_map_filter)
  show "r \<in> set (kept c now q) \<Longrightarrow> \<exists>r0 \<in> set q. retry_no r0 = retry_no r \<and> checks r0 = checks r"
    by (auto simp: kept_def asked_def)
qed

lemma notes_tick:
  assumes "notes_inv N s" and "processQueuedRetries now s = Some t"
  shows "notes_inv N t"
proof -
  note f = tick_queues [OF assms(2)]
  have o: "set (outs s) \<subseteq> set (outs t)" using outs_step [of s "Tick now"] assms(2) by simp
  have "told_ok N t x" if "x \<in> set (openNotices s)" for x
    by (rule told_ok_mono [of N s]) (use assms(1) that o f kept_numbers(3) in \<open>auto simp: notes_inv_def\<close>)
  moreover have "numbered t"
    using assms(1) f kept_numbers(1,2) by (fastforce simp: notes_inv_def numbered_def)
  ultimately show ?thesis by (simp add: notes_inv_def f)
qed

lemma notes_msg:
  assumes "notes_inv N s"
  shows "notes_inv N (workerMsgCallback now m s)"
proof -
  note o = outs_step [of s "Worker_msg now m", simplified]
  show ?thesis
  proof (cases m)
    case (Recheck sv)
    then show ?thesis using notes_recheck [OF assms] by simp
  next
    case (Totals t)
    then show ?thesis using notes_frame [OF assms] by (simp add: count_totals_def)
  next
    case (Notify_still_down sv)
    then show ?thesis using notes_announce [OF assms, of None] by simp
  next
    case (Notify_status_change sv)
    then show ?thesis using notes_announce [OF assms, of None] by simp
  qed (use o assms in \<open>auto intro!: notes_same [OF _ _ assms]\<close>)
qed

lemma notes_step:
  assumes "notes_inv N s" and "queues_inv N s"
  shows "notes_inv N (master_step e s)"
proof -
  note o = outs_step [of s e]
  show ?thesis
  proof (cases e)
    case (Worker_msg now m)
    with notes_msg [OF assms(1)] show ?thesis by simp
  next
    case (Ssl_msg now m)
    with notes_ssl [OF assms] show ?thesis by simp
  next
    case (Tick now)
    with assms(1) notes_tick show ?thesis by (auto split: option.split)
  next
    case (Stats_tick now rss)
    then show ?thesis
      by (intro notes_frame [OF assms(1) o])
        (simp_all add: updateStats_def restart_if_late_def resetVariables_def emit_stats_def Let_def)
  next
    case (Reload fl)
    have "same_retries (increment m v (s\<lparr>conf := c\<rparr>)) (fold (\<lambda>w. emit (To_worker (proc_pid w) Config_update)) ws
        (increment m v (s\<lparr>conf := c\<rparr>)))" for c m v and ws :: "proc list"
      by (rule same_retries_fold) simp
    then show ?thesis using Reload
      by (intro notes_frame [OF assms(1) o])
        (simp_all add: reload_signal_def Let_def same_retries_def split: option.split)
  next
    case (Db_updated b)
    then show ?thesis by (intro notes_frame [OF assms(1) o]) simp_all
  next
    case (File_opened j)
    then show ?thesis by (intro notes_frame [OF assms(1) o]) (simp_all add: file_opened_def)
  next
    case (Round_timer now)
    have "same_retries s (next_round_timer now (s\<lparr>roundTimers := n\<rparr>))" for n
      using same_retries_next_round [of "s\<lparr>roundTimers := n\<rparr>" now] by (simp only: same_retries_due)
    with Round_timer show ?thesis by (intro notes_same [OF _ o assms(1)]) simp
  next
    case (Restart_timer now)
    have "same_retries s (getMoreSites now (s\<lparr>restartTimers := n\<rparr>))" for n
      using same_retries_getMoreSites [of "s\<lparr>restartTimers := n\<rparr>" now] by (simp only: same_retries_due)
    with Restart_timer show ?thesis by (intro notes_same [OF _ o assms(1)]) simp
  next
    case (Batch now started res)
    have "same_retries s (batch_result now started res (s\<lparr>queriesDue := n\<rparr>))" for n
      using same_retries_batch [of "s\<lparr>queriesDue := n\<rparr>" now] by (simp only: same_retries_due)
    with Batch show ?thesis by (intro notes_same [OF _ o assms(1)]) simp
  qed (use o in \<open>auto intro!: notes_same [OF _ _ assms(1)]\<close>)
qed

lemma reachable_notes: "master_reachable N s \<Longrightarrow> notes_inv N s"
proof (induction rule: master_reachable.induct)
  case (start s)
  then obtain c now fresh where s: "s = ensure_worker_count fresh True (boot_master c now)"
    by (auto simp: master_init_def)
  have "queuedRetries s = []" "openNotices s = []"
    using same_retries_ensure [of "boot_master c now" fresh True]
    by (simp_all add: same_retries_def s boot_master_def)
  then show ?case by (simp add: notes_inv_def numbered_def)
next
  case (event s e)
  then show ?case using notes_step reachable_parts by blast
qed

text \<open>The notice a failed one makes the master send.\<close>

lemma repeated_notice:
  assumes "master_reachable N s" and "i < length (openNotices s)" and "Notify nt \<in> set (effects (Wpcom_failed i) s)"
  shows "nt = tells (conf s) (openNotices s ! i) \<and>
    (\<exists>nt0. Notify nt0 \<in> set (outs s) \<and> repeats nt0 nt) \<and>
    (told_entry (openNotices s ! i) \<noteq> None \<longrightarrow>
      n_status_id nt = SITE_DOWN \<and> backed N (peerLimit s) (n_checks nt))"
proof -
  define t where "t = openNotices s ! i"
  obtain calls where "outs (notify t (told_status t) s) = outs s @ map Db_call calls @ [Notify (tells (conf s) t)]"
    using notify_outs unfolding tells_def by blast
  then have nt: "nt = tells (conf s) t"
    using assms(2,3) by (auto simp: effects_def notify_again_def t_def Let_def)
  have "t \<in> set (openNotices s)" using assms(2) by (simp add: t_def)
  then have "told_ok N s t" using reachable_notes [OF assms(1)] by (simp add: notes_inv_def)
  then have "(\<exists>nt0. Notify nt0 \<in> set (outs s) \<and> repeats nt0 nt) \<and>
      (told_entry t \<noteq> None \<longrightarrow> n_status_id nt = SITE_DOWN \<and> backed N (peerLimit s) (n_checks nt))"
    by (auto simp: told_ok_def nt tells_def notice_of_def)
  with nt show ?thesis unfolding t_def by blast
qed

section \<open>Whose news it is\<close>

text \<open>
  A notice about an object that is not of the queue was made for a worker's message.  As long as no
  worker's message says that a site is down, none of these does.
\<close>

definition workers_news :: "master \<Rightarrow> bool" where
  "workers_news s \<longleftrightarrow> (\<forall>t \<in> set (openNotices s). told_entry t = None \<longrightarrow> told_status t \<noteq> SITE_DOWN)"

fun says_down :: "master_event \<Rightarrow> bool" where
  "says_down (Worker_msg now (Notify_status_change sv)) \<longleftrightarrow> site_status sv = SITE_DOWN"
| "says_down e \<longleftrightarrow> False"

lemma news_same: "openNotices t = openNotices s \<Longrightarrow> workers_news s \<Longrightarrow> workers_news t"
  by (simp add: workers_news_def)

lemma news_announce:
  "workers_news s \<Longrightarrow> k = None \<longrightarrow> st \<noteq> SITE_DOWN \<Longrightarrow> workers_news (announce k srv st s)"
  by (auto simp: workers_news_def told_of_def)

lemma news_checkHostStatus: "workers_news s \<Longrightarrow> workers_news (fst (checkHostStatus h d now s))"
proof -
  assume s: "workers_news s"
  have "told_entry (seen q t) = told_entry t" "told_status (seen q t) = told_status t" for q t
    by (simp_all add: seen_def split: option.split)
  with s have "workers_news (s\<lparr>queuedRetries := q, openNotices := refresh q (openNotices s)\<rparr>)" for q
    by (simp add: workers_news_def refresh_seen)
  then show ?thesis
    by (auto simp: checkHostStatus_def Let_def split: prod.split sum.split option.split intro!: news_announce)
qed

lemma news_msg:
  assumes "workers_news s" and "\<not> says_down (Worker_msg now m)"
  shows "workers_news (workerMsgCallback now m s)"
proof (cases m)
  case (Notify_status_change sv)
  with assms show ?thesis by (simp add: news_announce)
next
  case (Notify_still_down sv)
  with assms show ?thesis by (simp add: news_announce)
next
  case (Recheck sv)
  then show ?thesis
    by (intro news_same [OF _ assms(1)])
      (simp add: recheck_def add_server_to_local_retries_def host_check_request_def)
next
  case (Totals t)
  then show ?thesis by (intro news_same [OF _ assms(1)]) (simp add: count_totals_def)
next
  case (Stats p rep cs)
  then show ?thesis
    using same_retries_worker_stats by (intro news_same [OF _ assms(1)]) (simp add: same_retries_def)
next
  case (Send_work p)
  then show ?thesis
    using same_retries_send_work by (intro news_same [OF _ assms(1)]) (simp add: same_retries_def)
next
  case (Stop_work p)
  then show ?thesis
    using same_retries_stop_work by (intro news_same [OF _ assms(1)]) (simp add: same_retries_def)
qed (use assms(1) in simp)

lemma open_step:
  assumes "case e of Worker_msg now m \<Rightarrow> False | Ssl_msg now m \<Rightarrow> False | _ \<Rightarrow> True"
  shows "openNotices (master_step e s) = openNotices s"
proof (cases e)
  case (Tick now)
  then show ?thesis using tick_queues(7) by (auto split: option.split)
next
  case (Stats_tick now rss)
  then show ?thesis
    by (simp add: updateStats_def restart_if_late_def resetVariables_def emit_stats_def Let_def)
next
  case (Reload fl)
  have "same_retries u (fold (\<lambda>w. emit (To_worker (proc_pid w) Config_update)) ws u)" for u and ws :: "proc list"
    by (rule same_retries_fold) simp
  then show ?thesis using Reload
    by (simp add: reload_signal_def Let_def same_retries_def split: option.split)
next
  case (Worker_exit p code b q)
  then show ?thesis using same_retries_worker_exit by (simp add: same_retries_def)
next
  case (Count_timer fresh)
  then show ?thesis using same_retries_ensure by (simp add: same_retries_def)
next
  case (Round_timer now)
  then show ?thesis using same_retries_next_round by (simp add: same_retries_def)
next
  case (Restart_timer now)
  then show ?thesis using same_retries_getMoreSites by (simp add: same_retries_def)
next
  case (Batch now started res)
  then show ?thesis using same_retries_batch by (simp add: same_retries_def)
next
  case (File_opened j)
  then show ?thesis by (simp add: file_opened_def)
qed (use assms in simp_all)

lemma news_step:
  assumes "workers_news s" and "\<not> says_down e"
  shows "workers_news (master_step e s)"
proof -
  consider (msg) now m where "e = Worker_msg now m" | (ssl) now m where "e = Ssl_msg now m"
    | (other) "case e of Worker_msg now m \<Rightarrow> False | Ssl_msg now m \<Rightarrow> False | _ \<Rightarrow> True"
    by (cases e) auto
  then show ?thesis
  proof cases
    case msg
    with assms news_msg show ?thesis by simp
  next
    case ssl
    with assms(1) show ?thesis by (cases m) (auto intro: news_checkHostStatus check_each_inv)
  next
    case other
    from news_same [OF open_step [OF other] assms(1)] show ?thesis .
  qed
qed

end
