(* ===== verification/Report_Properties.thy ===== *)
theory Report_Properties
  imports Master_Properties
begin

text \<open>
  What the master reports: the totals of its workers between two reports, and the statistics of the
  checks, added up over all workers.
\<close>

section \<open>Totals\<close>

lemma same_tallies_announce [simp]: "tallies (announce k srv st s) = tallies s"
  by (simp add: tallies_def)

lemma same_tallies_due [simp]:
  "tallies (s\<lparr>roundTimers := n\<rparr>) = tallies s" "tallies (s\<lparr>restartTimers := n\<rparr>) = tallies s"
  "tallies (s\<lparr>queriesDue := n\<rparr>) = tallies s"
  by (simp_all add: tallies_def)

lemma same_tallies_checkHostStatus: "tallies (fst (checkHostStatus h d now s)) = tallies s"
  by (auto simp: checkHostStatus_def tallies_def Let_def split: prod.split sum.split option.split)

lemma same_tallies_ssl: "tallies (sslWorkerCallBack now m s) = tallies s"
proof (cases m)
  case (Host_status_array h ds)
  have "tallies (check_each h now ds s) = tallies s"
    by (rule check_each_inv) (simp_all add: same_tallies_checkHostStatus)
  with Host_status_array show ?thesis by simp
qed (simp_all add: same_tallies_checkHostStatus)

lemma same_tallies_reload: "tallies (reload_signal fl s) = tallies s"
proof -
  have "tallies (fold (\<lambda>w. emit (To_worker (proc_pid w) Config_update)) ws u) = tallies u"
    for ws :: "proc list" and u
    by (induction ws arbitrary: u) simp_all
  then show ?thesis by (simp add: reload_signal_def tallies_def Let_def split: option.split)
qed

fun counted :: "master_event \<Rightarrow> totals" where
  "counted (Worker_msg now (Totals t)) = t"
| "counted e = zero_totals"

fun reports_now :: "master_event \<Rightarrow> bool" where
  "reports_now (Stats_tick now rss) \<longleftrightarrow> True"
| "reports_now e \<longleftrightarrow> False"

definition plus_tallies :: "int \<times> int \<times> int \<times> int \<Rightarrow> totals \<Rightarrow> int \<times> int \<times> int \<times> int" where
  "plus_tallies q t = (case q of (up, down, off, n) \<Rightarrow>
     (up + total_running t, down + total_down t, off + total_confirmed t, n + totals_sum t))"

lemma plus_zero [simp]: "plus_tallies q zero_totals = q"
  by (cases q) (simp add: plus_tallies_def zero_totals_def totals_sum_def)

lemma tallies_msg: "tallies (workerMsgCallback now m s) = plus_tallies (tallies s) (counted (Worker_msg now m))"
proof (cases m)
  case (Totals t)
  then show ?thesis by (simp add: count_totals_def plus_tallies_def tallies_def)
next
  case (Recheck sv)
  then show ?thesis
    by (simp add: recheck_def add_server_to_local_retries_def host_check_request_def tallies_def)
next
  case (Notify_still_down sv)
  then show ?thesis by simp
next
  case (Notify_status_change sv)
  then show ?thesis by simp
qed (use same_retries_stop_work same_retries_send_work same_retries_worker_stats in \<open>simp_all add: same_retries_def\<close>)

lemma tallies_step:
  assumes "\<not> reports_now e"
  shows "tallies (master_step e s) = plus_tallies (tallies s) (counted e)"
proof (cases e)
  case (Worker_msg now m)
  with tallies_msg show ?thesis by simp
next
  case (Ssl_msg now m)
  with same_tallies_ssl show ?thesis by simp
next
  case (Tick now)
  then show ?thesis using tick_queues(3) by (simp split: option.split)
next
  case (Reload fl)
  with same_tallies_reload show ?thesis by simp
next
  case (Db_updated b)
  then show ?thesis by (simp add: tallies_def)
next
  case (File_opened j)
  then show ?thesis by (simp add: tallies_def)
next
  case (Wpcom_failed i)
  then show ?thesis using same_retries_emit(5) by (simp add: same_retries_def)
qed (use assms same_retries_worker_exit same_retries_ensure same_retries_next_round
    same_retries_getMoreSites same_retries_batch in \<open>simp_all add: same_retries_def\<close>)

definition sum_of :: "(totals \<Rightarrow> int) \<Rightarrow> master_event list \<Rightarrow> int" where
  "sum_of f es = sum_list (map (\<lambda>e. f (counted e)) es)"

lemma tallies_run:
  "\<forall>e \<in> set es. \<not> reports_now e \<Longrightarrow> tallies s = (a, b, c, n) \<Longrightarrow>
   tallies (fold master_step es s) = (a + sum_of total_running es, b + sum_of total_down es,
     c + sum_of total_confirmed es, n + sum_of totals_sum es)"
proof (induction es arbitrary: s a b c n)
  case (Cons e es)
  have "tallies (master_step e s) = plus_tallies (a, b, c, n) (counted e)"
    using Cons.prems tallies_step by simp
  then have "tallies (master_step e s) = (a + total_running (counted e), b + total_down (counted e),
      c + total_confirmed (counted e), n + totals_sum (counted e))"
    by (simp add: plus_tallies_def)
  from Cons.IH [OF _ this] Cons.prems(1) show ?case by (simp add: sum_of_def)
qed (simp add: sum_of_def)

lemma sum_of_total: "sum_of totals_sum es = sum_of total_running es + sum_of total_down es + sum_of total_confirmed es"
  by (induction es) (simp_all add: sum_of_def totals_sum_def)

lemma tallies_updateStats: "tallies (updateStats now rss s) = (0, 0, 0, 0)"
  by (simp add: updateStats_def emit_stats_def tallies_def Let_def)

text \<open>What a report says of the totals: the metrics, and the file that gets the same numbers.\<close>

definition totals_told :: "int \<Rightarrow> int \<Rightarrow> int \<Rightarrow> int \<Rightarrow> out set" where
  "totals_told e f u n =
     {Stat (Increment ''stats.sites.success.count'' (VInt u)), Stat (Increment ''stats.sites.error.count'' (VInt e)),
      Stat (Increment ''stats.sites.offline.count'' (VInt f)), Stat (Increment ''stats.sites.total.count'' (VInt n)),
      Open_file (Totals_file e f u n)}"

lemma report_told:
  "totals_told (gCountError s) (gCountOffline s) (gCountSuccess s) (sitesCount s)
     \<subseteq> set (effects (Stats_tick now rss) s)"
proof -
  define r where "r = restart_if_late now s"
  have "\<exists>zs. outs r = outs s @ zs"
    by (simp add: r_def restart_if_late_def resetVariables_def Let_def)
  then obtain zs where z: "outs r = outs s @ zs" by blast
  have f: "gCountError r = gCountError s" "gCountOffline r = gCountOffline s" "gCountSuccess r = gCountSuccess s"
      "sitesCount r = sitesCount s"
    by (simp_all add: r_def restart_if_late_def resetVariables_def Let_def)
  show ?thesis
    by (cases "STATSD_SEND_MEM_USAGE (conf r)")
      (simp_all add: effects_def totals_told_def updateStats_def Let_def emit_stats_def z f flip: r_def)
qed

text \<open>
  C31. The reported totals are those of the workers: a report counts the sites that were up, down and
  confirmed down in the messages since the last report, whatever else happened in between, and its
  total is their sum; the file \<open>stats/totals\<close> gets the same numbers.
\<close>

theorem report_adds_up:
  fixes now t0 rss r0 :: int and s0 :: master
  assumes "\<forall>e \<in> set es. \<not> reports_now e"
  defines "s \<equiv> fold master_step es (master_step (Stats_tick t0 r0) s0)"
  shows "{Stat (Increment ''stats.sites.success.count'' (VInt (sum_of total_running es))),
      Stat (Increment ''stats.sites.error.count'' (VInt (sum_of total_down es))),
      Stat (Increment ''stats.sites.offline.count'' (VInt (sum_of total_confirmed es))),
      Stat (Increment ''stats.sites.total.count'' (VInt (sum_of total_running es + sum_of total_down es +
         sum_of total_confirmed es))),
      Open_file (Totals_file (sum_of total_down es) (sum_of total_confirmed es) (sum_of total_running es)
        (sum_of total_running es + sum_of total_down es + sum_of total_confirmed es))}
    \<subseteq> set (effects (Stats_tick now rss) s)"
proof -
  have "tallies s = (sum_of total_running es, sum_of total_down es, sum_of total_confirmed es, sum_of totals_sum es)"
    using tallies_run [OF assms(1) tallies_updateStats [of t0 r0 s0]] by (simp add: s_def)
  then have t: "gCountSuccess s = sum_of total_running es" "gCountError s = sum_of total_down es"
      "gCountOffline s = sum_of total_confirmed es" "sitesCount s = sum_of totals_sum es"
    by (simp_all add: tallies_def)
  then show ?thesis using report_told [of s now rss] by (simp add: totals_told_def sum_of_total)
qed

theorem report_adds_up_witness:
  "Stat (Increment ''stats.sites.total.count'' (VInt 7)) \<in>
     set (effects (Stats_tick 9000 5) (fold master_step
       [Worker_msg 10 (Totals \<lparr>total_down = 1, total_running = 3, total_confirmed = 0\<rparr>),
        Worker_msg 20 (Send_work 100),
        Worker_msg 30 (Totals \<lparr>total_down = 0, total_running = 2, total_confirmed = 1\<rparr>)]
       (master_step (Stats_tick 5 5) master_busy)))"
proof -
  define es where "es = [Worker_msg 10 (Totals \<lparr>total_down = 1, total_running = 3, total_confirmed = 0\<rparr>),
        Worker_msg 20 (Send_work 100),
        Worker_msg 30 (Totals \<lparr>total_down = 0, total_running = 2, total_confirmed = 1\<rparr>)]"
  have e: "\<forall>e \<in> set es. \<not> reports_now e" by (simp add: es_def)
  have "sum_of total_running es = 5" "sum_of total_down es = 1" "sum_of total_confirmed es = 1"
    by (simp_all add: es_def sum_of_def zero_totals_def)
  with report_adds_up [OF e, where now = 9000 and rss = 5 and ?t0.0 = 5 and ?r0.0 = 5 and ?s0.0 = master_busy] show ?thesis unfolding es_def [symmetric] by simp
qed

section \<open>Statistics\<close>

text \<open>What a worker collects for the results \<open>rs\<close> of its checks.\<close>

definition collected :: "result list \<Rightarrow> check_stats" where
  "collected rs = fold (\<lambda>(k, rtt, code, err). record_check k rtt code err) rs []"

lemma describes_fold:
  "describes stats qs \<Longrightarrow> describes (fold (\<lambda>(k, rtt, code, err). record_check k rtt code err) rs stats) (qs @ rs)"
proof (induction rs arbitrary: stats qs)
  case (Cons r rs)
  obtain k rtt code err where r: "r = (k, rtt, code, err)" by (cases r)
  from Cons.IH [OF describes_record [OF Cons.prems, of k rtt code err]] show ?case by (simp add: r)
qed simp

lemma checkStats_assign [simp]: "checkStats (assign_work_to_worker p sz s) = checkStats s"
  by (simp add: assign_work_to_worker_def get_work_dataset_def Let_def split: option.split)

lemma checkStats_worker_stats [simp]:
  "checkStats (worker_stats p rep cs s) = merge_stats (checkStats s) cs"
  by (simp add: worker_stats_def Let_def)

text \<open>
  C21. The statistics are exact end to end: whatever results the workers count, and whichever reports
  they come in, the master's object after the reports is the summary of all the results: for each
  status the number of checks per HTTP code and per error code, and the count, sum, greatest and
  least of the response times.
\<close>

theorem statistics_are_exact:
  assumes "describes (checkStats s) qs"
  shows "describes (checkStats (fold (\<lambda>(p, rep, rs). workerMsgCallback now (Stats p rep (collected rs))) msgs s))
    (qs @ concat (map (\<lambda>(p, rep, rs). rs) msgs))"
  using assms
proof (induction msgs arbitrary: s qs)
  case (Cons m msgs)
  obtain p rep rs where m: "m = (p, rep, rs)" by (cases m)
  have "describes (collected rs) rs"
    using describes_fold [OF describes_Nil, of rs] by (simp add: collected_def)
  then have "describes (merge_stats (checkStats s) (collected rs)) (qs @ rs)"
    by (rule describes_merge [OF Cons.prems])
  then have "describes (checkStats (workerMsgCallback now (Stats p rep (collected rs)) s)) (qs @ rs)" by simp
  from Cons.IH [OF this] show ?case by (simp add: m del: workerMsgCallback.simps)
qed simp

definition demo_report :: worker_report where
  "demo_report = \<lparr>queueLength = 2, report_pointer = 2, report_activeChecks = 0, report_totalChecks = 9,
     memoryUsage = 5, uptime = 6000\<rparr>"

theorem statistics_are_exact_witness:
  "describes (checkStats (fold (\<lambda>(p, rep, rs). workerMsgCallback 7 (Stats p rep (collected rs)))
      [(100, demo_report, [(Up, 1500, 200, 0), (Down, 0, 0, 7)]), (101, demo_report, [(Up, 900, 301, 0)])] master_busy))
    [(Up, 1500, 200, 0), (Down, 0, 0, 7), (Up, 900, 301, 0)]"
proof -
  have "checkStats master_busy = []" by code_simp
  then have "describes (checkStats master_busy) []" by (simp add: describes_Nil)
  from statistics_are_exact [OF this, of 7 "[(100, demo_report, [(Up, 1500, 200, 0), (Down, 0, 0, 7)]),
      (101, demo_report, [(Up, 900, 301, 0)])]"]
  show ?thesis by simp
qed

end
