(* ===== verification/Statsd_Properties.thy ===== *)
theory Statsd_Properties
  imports Statsd
begin

text \<open>
  What the StatsD client promises its callers, whatever the flush timer does: no metric is lost,
  doubled or reordered, and no datagram cuts a line.
\<close>

text \<open>The client with its flush timer, and the calls among a list of events.\<close>

fun statsd_step :: "stat_call sink_event \<Rightarrow> statsd \<Rightarrow> statsd" where
  "statsd_step (Call c) s = stat c s"
| "statsd_step FlushTimer s = flush s"

fun calls_of :: "stat_call sink_event list \<Rightarrow> stat_call list" where
  "calls_of [] = []"
| "calls_of (Call c # es) = c # calls_of es"
| "calls_of (FlushTimer # es) = calls_of es"

lemma step_is_event: "sd.event = statsd_step"
proof (intro ext)
  fix e s show "sd.event e s = statsd_step e s" by (cases e) simp_all
qed

lemma calls_are_calls: "sd.calls = calls_of"
proof (intro ext)
  fix es show "sd.calls es = calls_of es" by (induction es rule: calls_of.induct) simp_all
qed

text \<open>
  C37. No metric is lost: the datagrams sent and the buffer together are the lines of the calls, in
  their order, for any calls and any firing of the flush timer in between.
\<close>

theorem metrics_are_not_lost:
  "concat (datagrams (fold statsd_step es (init_statsd p mtu))) @ buffer (fold statsd_step es (init_statsd p mtu)) =
     concat (map (\<lambda>c. p @ message c @ [char_of (10 :: nat)]) (calls_of es))"
proof -
  have "stream (init_statsd p mtu) = []" by (simp add: stream_def init_statsd_def)
  moreover have "render (init_statsd p mtu) = (\<lambda>c. p @ message c @ [char_of (10 :: nat)])"
    by (simp add: render_def line_def init_statsd_def fun_eq_iff)
  ultimately show ?thesis
    using sd.nothing_lost [of es "init_statsd p mtu"]
    unfolding step_is_event calls_are_calls by (simp add: stream_def)
qed

lemma maxBufferSize_run: "maxBufferSize (fold statsd_step es s) = maxBufferSize s"
proof (induction es arbitrary: s)
  case (Cons e es)
  have "maxBufferSize (statsd_step e s) = maxBufferSize s" by (cases e) (simp_all add: stat_def)
  with Cons.IH show ?case by simp
qed simp

text \<open>
  C38. Every datagram is a sequence of whole lines, at least one, and longer than the MTU less 29 bytes
  only where a single line is: a datagram of more than one line stays below that limit.
\<close>

theorem datagrams_are_whole_lines:
  assumes "d \<in> set (datagrams (fold statsd_step es (init_statsd p mtu)))"
  shows "\<exists>ls. d = concat ls \<and> ls \<noteq> [] \<and>
    set ls \<subseteq> (\<lambda>c. p @ message c @ [char_of (10 :: nat)]) ` set (calls_of es) \<and>
    (length ls \<le> 1 \<or> int (length d) < mtu - 29)"
proof -
  define s where "s = fold statsd_step es (init_statsd p mtu)"
  obtain hs g where h: "packed s hs g" "concat hs @ g = map (render (init_statsd p mtu)) (calls_of es)"
    using packed_run [OF packed_init, of es p mtu] unfolding step_is_event calls_are_calls s_def by auto
  obtain ls where ls: "ls \<in> set hs" "d = concat ls" "ls \<noteq> []" "fits s ls"
    using packed_datagram [OF h(1)] assms by (metis s_def)
  have "set ls \<subseteq> set (concat hs @ g)" using ls(1) by auto
  then have "set ls \<subseteq> render (init_statsd p mtu) ` set (calls_of es)" unfolding h(2) by simp
  moreover have "render (init_statsd p mtu) = (\<lambda>c. p @ message c @ [char_of (10 :: nat)])"
    by (simp add: render_def line_def init_statsd_def fun_eq_iff)
  moreover have "maxBufferSize s = mtu - 29" by (simp add: s_def maxBufferSize_run) (simp add: init_statsd_def)
  ultimately show ?thesis using ls by (auto simp: fits_def)
qed

theorem datagrams_are_whole_lines_witness:
  "\<exists>ls. concat (datagrams (fold statsd_step [Call (Increment ''a'' (VInt 1)), Call (Timing ''b'' (VInt 22)), FlushTimer]
      (init_statsd ''p.'' 45))) = concat ls"
proof -
  let ?es = "[Call (Increment ''a'' (VInt 1)), Call (Timing ''b'' (VInt 22)), FlushTimer]"
  have "length (datagrams (fold statsd_step ?es (init_statsd ''p.'' 45))) = 2" by code_simp
  then have d: "hd (datagrams (fold statsd_step ?es (init_statsd ''p.'' 45)))
      \<in> set (datagrams (fold statsd_step ?es (init_statsd ''p.'' 45)))"
    by (intro hd_in_set) auto
  from datagrams_are_whole_lines [OF d] show ?thesis by blast
qed

end
