(* ===== verification/Database_Properties.thy ===== *)
theory Database_Properties
  imports Database
begin

text \<open>
  The properties of \<open>lib/database.js\<close>: what a round of batches covers, what an error does to the
  cursor, which pool a statement reaches, and what becomes of pending updates.
\<close>

section \<open>Rounds\<close>

lemma count_upto: "count_list [lo..hi] b = (if lo \<le> b \<and> b \<le> hi then 1 else 0)" for b :: int
proof -
  have "count_list xs x = (if x \<in> set xs then 1 else 0)" if "distinct xs" for xs and x :: int
    using that by (induction xs) auto
  from this [of "[lo..hi]" b] show ?thesis by simp
qed

lemma count_replicate: "count_list (concat (replicate k xs)) b = k * count_list xs b"
  by (induction k) simp_all

text \<open>
  The window a process starts with is the one of a round's start, but for a batch that is larger than
  the range: then it is not cut off at BUCKET_NO_MAX, and the first round is this one window.
\<close>

lemma boot_round:
  assumes "0 < BATCH_SIZE c" and "BUCKET_NO_MIN c < BUCKET_NO_MAX c"
  shows "BUCKET_NO_MIN c + BATCH_SIZE c - 1 \<le> BUCKET_NO_MAX c \<Longrightarrow> at_start (c, boot_db c)"
    and "BUCKET_NO_MAX c < BUCKET_NO_MIN c + BATCH_SIZE c - 1 \<Longrightarrow>
      batches_per_round (c, d) = 1 \<and> \<not> BATCH_SIZE c dvd BUCKET_NO_MAX c - BUCKET_NO_MIN c \<and>
      (\<exists>d1. fetch_batch (c, boot_db c) = (True, c, d1) \<and> at_start (c, d1))"
proof -
  show "BUCKET_NO_MIN c + BATCH_SIZE c - 1 \<le> BUCKET_NO_MAX c \<Longrightarrow> at_start (c, boot_db c)"
    using assms by (simp add: at_start_def boot_db_def)
  assume big: "BUCKET_NO_MAX c < BUCKET_NO_MIN c + BATCH_SIZE c - 1"
  define m B where "m = BUCKET_NO_MAX c - BUCKET_NO_MIN c" and "B = BATCH_SIZE c"
  have m: "0 < m" "m < B" using assms big by (simp_all add: m_def B_def)
  then have "(m + B - 1) div B = 1" using div_add_self2 [of B "m - 1"] by (simp add: algebra_simps)
  moreover have "\<not> B dvd m" using m by (meson zdvd_not_zless)
  moreover have "at_start (c, fst (snd (getNextBatch c (boot_db c))))"
    using assms big
    by (simp add: at_start_def getNextBatch_simps advance_window_def boot_db_def Let_def)
  moreover have "fetch_batch (c, boot_db c) = (True, c, fst (snd (getNextBatch c (boot_db c))))"
    using assms big by (simp add: fetch_batch_simps advance_window_def boot_db_def Let_def)
  ultimately show "batches_per_round (c, d) = 1 \<and> \<not> BATCH_SIZE c dvd BUCKET_NO_MAX c - BUCKET_NO_MIN c \<and>
      (\<exists>d1. fetch_batch (c, boot_db c) = (True, c, d1) \<and> at_start (c, d1))"
    by (auto simp: batches_per_round_def m_def B_def)
qed

text \<open>
  C18. Over the first \<open>k\<close> rounds of a process, from its start, the host queries each bucket from
  BUCKET_NO_MIN up to BUCKET_NO_MAX, that one excluded, exactly \<open>k\<close> times; \<open>getNextBatch\<close> says that the
  round is over at the last batch of each round and at no other.  The bucket BUCKET_NO_MAX itself,
  which \<open>config.readme\<close> calls the last one of the range, is queried too when the batch size does not
  divide the range, and never when it does.  A bucket outside the range is queried at most once, in the
  first batch, and only if BATCH_SIZE is larger than the range: the window of that batch is not cut off
  at BUCKET_NO_MAX, and reaches into the buckets of another host.
\<close>

theorem rounds_cover_buckets:
  assumes "0 < BATCH_SIZE c" and "BUCKET_NO_MIN c < BUCKET_NO_MAX c"
    and "fetches fetch_batch db_window (k * batches_per_round (c, boot_db c)) (c, boot_db c) = (ws, s')"
  shows "count_list (buckets ws) b =
      (if BUCKET_NO_MIN c \<le> b \<and> b < BUCKET_NO_MAX c \<or>
          b = BUCKET_NO_MAX c \<and> \<not> BATCH_SIZE c dvd BUCKET_NO_MAX c - BUCKET_NO_MIN c then k
       else if 0 < k \<and> BUCKET_NO_MAX c < b \<and> b < BUCKET_NO_MIN c + BATCH_SIZE c then 1 else 0) \<and>
    map snd ws = concat (replicate k (replicate (batches_per_round (c, boot_db c) - 1) False @ [True]))"
proof -
  have rounds: "count_list (buckets vs) b =
      (if BUCKET_NO_MIN c \<le> b \<and> b < BUCKET_NO_MAX c \<or>
          b = BUCKET_NO_MAX c \<and> \<not> BATCH_SIZE c dvd BUCKET_NO_MAX c - BUCKET_NO_MIN c then n else 0) \<and>
      map snd vs = concat (replicate n (replicate (batches_per_round (c, d) - 1) False @ [True]))"
    if "at_start (c, d)" "fetches fetch_batch db_window (n * batches_per_round (c, d)) (c, d) = (vs, t)" for d n vs t
    using cursor.rounds [OF that] assms(2)
    by (auto simp: count_replicate bucket_range_def Let_def count_upto)
  show ?thesis
  proof (cases "BUCKET_NO_MIN c + BATCH_SIZE c - 1 \<le> BUCKET_NO_MAX c")
    case True
    from rounds [OF boot_round(1) [OF assms(1,2) True] assms(3)] True show ?thesis by auto
  next
    case False
    then have big: "BUCKET_NO_MAX c < BUCKET_NO_MIN c + BATCH_SIZE c - 1" by simp
    note b = boot_round(2) [OF assms(1,2) big]
    show ?thesis
    proof (cases k)
      case 0
      with assms(3) show ?thesis by simp
    next
      case (Suc n)
      obtain d1 where d1: "fetch_batch (c, boot_db c) = (True, c, d1)" "at_start (c, d1)" using b by blast
      obtain vs t where v: "fetches fetch_batch db_window n (c, d1) = (vs, t)" by (metis surj_pair)
      have "ws = ((BUCKET_NO_MIN c, BUCKET_NO_MIN c + BATCH_SIZE c - 1), True) # vs"
        using assms(3) v d1(1) b by (simp add: Suc db_window_def boot_db_def)
      with rounds [OF d1(2), of n vs t] v b big assms(2) show ?thesis
        by (auto simp: Suc count_upto)
    qed
  qed
qed

definition small_range :: config where
  "small_range = sample_config\<lparr>BUCKET_NO_MIN := 0, BUCKET_NO_MAX := 9, BATCH_SIZE := 32\<rparr>"

theorem rounds_cover_buckets_witness:
  "\<exists>ws s'. fetches fetch_batch db_window (2 * batches_per_round (small_range, boot_db small_range))
      (small_range, boot_db small_range) = (ws, s') \<and>
    count_list (buckets ws) 5 = 2 \<and> count_list (buckets ws) 31 = 1 \<and> count_list (buckets ws) 32 = 0"
proof -
  have c: "0 < BATCH_SIZE small_range" "BUCKET_NO_MIN small_range < BUCKET_NO_MAX small_range"
    by (simp_all add: small_range_def)
  obtain ws s' where r: "fetches fetch_batch db_window
      (2 * batches_per_round (small_range, boot_db small_range)) (small_range, boot_db small_range) = (ws, s')"
    by (metis surj_pair)
  note n = rounds_cover_buckets [OF c r, THEN conjunct1]
  from n [of 5] n [of 31] n [of 32]
  have "count_list (buckets ws) 5 = 2" "count_list (buckets ws) 31 = 1" "count_list (buckets ws) 32 = 0"
    by (simp_all add: small_range_def)
  with r show ?thesis by blast
qed

text \<open>
  C34. A failed query inside a round moves the cursor back to the first bucket of the batch that failed.
  The end of the window is moved back too, from where the next batch was to end: where that one was cut
  off at BUCKET_NO_MAX, the batch to be tried again ends at BUCKET_NO_MAX - BATCH_SIZE, and the buckets
  behind it up to the next batch, which starts where it would have, are left out.  A failed query for
  the last batch of a round does not move back: the cursor has wrapped around by then, and it is moved
  below the first bucket, so that the next query asks for buckets below BUCKET_NO_MIN, which belong to
  another host, and for none of this host's.
\<close>

theorem failed_query_rolls_back:
  assumes "0 < BATCH_SIZE c" and "BUCKET_NO_MIN c \<le> fromBucketNo d"
    and "getNextBatch c d = (fin, d1, calls)"
    and "batch_answer c (Some err, rows) d1 = (d2, got)"
  shows "got = None \<and>
    (fromBucketNo d + BATCH_SIZE c < BUCKET_NO_MAX c \<longrightarrow>
       fromBucketNo d2 = fromBucketNo d \<and>
       toBucketNo d2 = min (fromBucketNo d + BATCH_SIZE c - 1) (BUCKET_NO_MAX c - BATCH_SIZE c) \<and>
       fromBucketNo (fst (snd (getNextBatch c d2))) = fromBucketNo d + BATCH_SIZE c) \<and>
    (BUCKET_NO_MAX c \<le> fromBucketNo d + BATCH_SIZE c \<longrightarrow>
       fromBucketNo d2 = BUCKET_NO_MIN c - BATCH_SIZE c \<and>
       toBucketNo d2 = min (BUCKET_NO_MIN c - 1) (BUCKET_NO_MAX c - BATCH_SIZE c))"
proof -
  have "fromBucketNo d1 = fromBucketNo (advance_window c d)"
       "toBucketNo d1 = toBucketNo (advance_window c d)"
    using getNextBatch_simps(2,3) [of c d] assms(3) by simp_all
  with assms(1,2,4) show ?thesis
    by (auto simp: batch_answer_def advance_window_def getNextBatch_simps Let_def)
qed

definition wide_range :: config where
  "wide_range = sample_config\<lparr>BUCKET_NO_MIN := 0, BUCKET_NO_MAX := 100, BATCH_SIZE := 32\<rparr>"

theorem failed_query_rolls_back_witness:
  "\<exists>d2. batch_answer wide_range (Some ''timeout'', None :: row list option)
      (fst (snd (getNextBatch wide_range ((boot_db wide_range)\<lparr>fromBucketNo := 64, toBucketNo := 95\<rparr>)))) = (d2, None) \<and>
    fromBucketNo d2 = 64 \<and> toBucketNo d2 = 68 \<and> fromBucketNo (fst (snd (getNextBatch wide_range d2))) = 96"
proof -
  let ?d = "(boot_db wide_range)\<lparr>fromBucketNo := 64, toBucketNo := 95\<rparr>"
  obtain fin d1 calls where g: "getNextBatch wide_range ?d = (fin, d1, calls)"
    by (metis prod_cases3)
  obtain d2 got where a: "batch_answer wide_range (Some ''timeout'', None :: row list option) d1 = (d2, got)"
    by (metis surj_pair)
  have h: "0 < BATCH_SIZE wide_range" "BUCKET_NO_MIN wide_range \<le> fromBucketNo ?d"
    "fromBucketNo ?d + BATCH_SIZE wide_range < BUCKET_NO_MAX wide_range"
    by (simp_all add: wide_range_def)
  from failed_query_rolls_back [OF h(1,2) g a] h(3) a g show ?thesis by (simp add: wide_range_def)
qed

section \<open>Pools\<close>

text \<open>
  Failover: a query goes to a read-only slave and, only where no slave connects, to a failover
  server; the caller's function gets the answer of the first that connects, and an error with
  no rows only where neither connects or the query itself fails.
\<close>

theorem query_failover:
  "execQuery_result cluster q =
    (case (cluster (poolPrefix q @ ''SLAVE*''), cluster (poolPrefix q @ ''FAILOVER*'')) of
       (Answered err rows, _) \<Rightarrow> (err, rows)
     | (Refused e, Answered err rows) \<Rightarrow> (err, rows)
     | (Refused e, Refused e') \<Rightarrow> (Some (''error connecting to a remote failover db: '' @ e'), Some []))"
  by (simp add: execQuery_result_def split: pool_answer.split)

text \<open>
  Every statement the program sends reads or writes the sites' table, so it goes to the pool of
  the \<open>misc\<close> data set; the UPDATE of a site goes where the queries go, to the pattern of the
  read-only slaves, and not to the master that batched updates go to.
\<close>

theorem statements_reach_pools:
  "queries (snd (snd (getNextBatch c d))) = [(''MISC_SLAVE*'', batch_query c (fromBucketNo d) (toBucketNo d))] \<and>
   queries (snd (updateSite blog url st d)) = [(''MISC_SLAVE*'', update_query blog url st)] \<and>
   (arrUpdateStatements d \<noteq> [] \<longrightarrow>
      queries (fst (snd (commitUpdates cb Committed d))) = [(''MISC_MASTER'', concat (arrUpdateStatements d))])"
  using queries_execQuery [of "update_query blog url st" d]
  by (simp add: getNextBatch_simps updateSite_def poolPrefix_update)
    (simp add: commitUpdates_def reload_if_pending_def queries_def Let_def)

theorem statements_reach_pools_witness:
  "queries (fst (snd (commitUpdates True Committed ((boot_db sample_config)\<lparr>arrUpdateStatements := [''x'']\<rparr>)))) =
     [(''MISC_MASTER'', ''x'')]"
  using statements_reach_pools [where d = "(boot_db sample_config)\<lparr>arrUpdateStatements := [''x'']\<rparr>" and cb = True]
  by simp

text \<open>
  The caller of \<open>commitUpdates\<close> is always called back, and no pending statement is dropped before
  the master has taken it.
\<close>

theorem commit_keeps_until_committed:
  "snd (snd (commitUpdates cb ans d)) = cb \<and>
   arrUpdateStatements (fst (commitUpdates cb ans d)) =
     (if ans = Committed then [] else arrUpdateStatements d)"
  by (cases ans) (simp_all add: commitUpdates_def reload_if_pending_def Let_def)

section \<open>Text\<close>

text \<open>
  The address of a site goes into the UPDATE as it is: for an address with a quote in it the
  statement is the one for the part before the quote, followed by the rest as SQL.
\<close>

theorem update_does_not_escape:
  "update_query blog (u @ [CHR 0x27] @ v) st = update_query blog u st @ v @ [CHR 0x27]"
  by (simp add: update_query_def)

definition padded_date :: "date \<Rightarrow> string" where
  "padded_date now = show_nat (getFullYear now) @ ''-'' @ pad2 (1 + getMonth now) @ ''-''
     @ pad2 (getDate now) @ '' '' @ pad2 (getHours now) @ '':''
     @ pad2 (getMinutes now) @ '':'' @ pad2 (getSeconds now)"

lemma show_nat_length_1: "1 = length (show_nat n) \<longleftrightarrow> n < 10"
proof
  assume "1 = length (show_nat n)"
  then show "n < 10"
    by (subst (asm) show_nat.simps) (auto split: if_splits)
qed (simp add: show_nat.simps)

text \<open>
  \<open>getNowDateTime\<close> pads the day and the time to two digits but not the month: it prints the
  intended date from October to December only.
\<close>

theorem month_is_not_padded:
  "getNowDateTime now = padded_date now \<longleftrightarrow> 9 \<le> getMonth now"
proof -
  have "show_nat n = pad2 n \<longleftrightarrow> 10 \<le> n" for n
    unfolding pad2_def show_nat_length_1 by auto
  then show ?thesis
    by (simp add: getNowDateTime_def padded_date_def number_length_def)
qed

end
