(* ===== verification/Dbpools.thy ===== *)
theory Dbpools
  imports Database Json
begin

text \<open>
  \<open>lib/dbpools.js\<close>: reading the list of database servers from \<open>config/db-config.conf\<close>, a PHP file of
  which single lines are picked, and the clusters of connection pools they are added to; with
  \<open>init\<close> of \<open>lib/database.js\<close>, which gets the result of the first load.  The file, the host's name, the
  clock of the file system and the update script are inputs; the calls of the MySQL driver are
  outputs.
\<close>

section \<open>Strings\<close>

text \<open>The classes \<open>\s\<close> and \<open>[-\w]\<close> of the patterns.\<close>

definition is_space :: "char \<Rightarrow> bool" where
  "is_space ch = (let n = (of_char ch :: nat) in 9 \<le> n \<and> n \<le> 13 \<or> n = 32 \<or> n = 160)"

definition name_char :: "char \<Rightarrow> bool" where
  "name_char ch = (let n = (of_char ch :: nat) in
     n = 45 \<or> n = 95 \<or> 48 \<le> n \<and> n \<le> 57 \<or> 65 \<le> n \<and> n \<le> 90 \<or> 97 \<le> n \<and> n \<le> 122)"

abbreviation QUOTE :: char where "QUOTE \<equiv> CHR 0x27"
abbreviation DQUOTE :: char where "DQUOTE \<equiv> CHR 0x22"
abbreviation NEWLINE :: char where "NEWLINE \<equiv> CHR 0x0A"

definition skip_spaces :: "string \<Rightarrow> string" where
  "skip_spaces = dropWhile is_space"

text \<open>\<open>indexOf\<close> and \<open>lastIndexOf\<close> of one character, and \<open>substr\<close>.\<close>

definition char_index :: "char \<Rightarrow> string \<Rightarrow> int" where
  "char_index ch s = (case index_of [ch] s of None \<Rightarrow> -1 | Some n \<Rightarrow> int n)"

definition last_char_index :: "char \<Rightarrow> string \<Rightarrow> int" where
  "last_char_index ch s =
     (case index_of [ch] (rev s) of None \<Rightarrow> -1 | Some n \<Rightarrow> int (length s) - 1 - int n)"

definition substr :: "int \<Rightarrow> int \<Rightarrow> string \<Rightarrow> string" where
  "substr start len s =
     (let start = (if start < 0 then max 0 (int (length s) + start) else start)
      in take (nat len) (drop (nat start) s))"

section \<open>A line of the file\<close>

text \<open>\<open>datasetPattern\<close>, with the name it captures, and \<open>serverPattern\<close>.\<close>

definition dataset_name :: "string \<Rightarrow> string option" where
  "dataset_name s =
     (case s of
        c # q # r \<Rightarrow>
          let w = takeWhile name_char r;
              r1 = dropWhile name_char r;
              r2 = skip_spaces (tl r1)
          in if is_space c \<and> q = QUOTE \<and> w \<noteq> [] \<and> is_prefix [QUOTE] r1 \<and> is_prefix ''=>'' r2 \<and>
                is_prefix ''array('' (skip_spaces (drop 2 r2))
             then Some w else None
      | _ \<Rightarrow> None)"

definition server_line :: "string \<Rightarrow> bool" where
  "server_line s = is_prefix ''array('' (skip_spaces s)"

definition line_settings :: "string \<Rightarrow> string list" where
  "line_settings s =
     (let text = substr (char_index QUOTE s) (last_char_index (CHR '')'') s - char_index QUOTE s) s
      in split_on (CHR '','') (filter (\<lambda>ch. ch \<noteq> QUOTE \<and> ch \<noteq> DQUOTE \<and> ch \<noteq> CHR '' '') text))"

definition DATACENTER :: nat where "DATACENTER = 0"
definition WRITE_MASTER :: nat where "WRITE_MASTER = 2"
definition INTERNET_URI :: nat where "INTERNET_URI = 3"
definition DB_NAME :: nat where "DB_NAME = 5"
definition DB_USER :: nat where "DB_USER = 6"
definition DB_PASSWORD :: nat where "DB_PASSWORD = 7"

lemmas setting_defs = DATACENTER_def WRITE_MASTER_def INTERNET_URI_def DB_NAME_def DB_USER_def DB_PASSWORD_def

text \<open>The options of a connection; the port is undefined where the address has no colon.\<close>

record db_node =
  node_host :: string
  node_port :: "string option"
  node_user :: string
  node_password :: string
  node_database :: string
  connectionLimit :: nat
  supportBigNumbers :: bool
  multipleStatements :: bool

definition db_config :: "string list \<Rightarrow> db_node" where
  "db_config a =
     (let parts = split_on (CHR '':'') (a ! INTERNET_URI)
      in \<lparr>node_host = hd parts, node_port = (if length parts < 2 then None else Some (parts ! 1)),
          node_user = a ! DB_USER, node_password = a ! DB_PASSWORD, node_database = a ! DB_NAME,
          connectionLimit = 5, supportBigNumbers = True, multipleStatements = False\<rparr>)"

section \<open>The loop over the lines\<close>

text \<open>
  \<open>load\<close> can end early: it returns \<open>false\<close>, or the function it calls back ends the process.  The caller's
  function is given by the exit code it ends the process with for an argument, if it does.
\<close>

datatype load_end = Returned bool | Called_back | Exited int

record loading =
  currentDataset :: "string option"
  slaveUniqueCount :: nat
  backupUniqueCount :: nat
  nodes :: "(string \<times> db_node) list"
  load_end :: "load_end option"

definition add_node :: "string \<Rightarrow> db_node \<Rightarrow> loading \<Rightarrow> loading" where
  "add_node name n l = l\<lparr>nodes := nodes l @ [(name, n)]\<rparr>"

definition add_server :: "string list \<Rightarrow> string \<Rightarrow> loading \<Rightarrow> loading" where
  "add_server a installedDC l =
     (if contains installedDC (a ! DATACENTER) then
        (add_node (''MISC_SLAVE'' @ show_nat (slaveUniqueCount l)) (db_config a) l)
          \<lparr>slaveUniqueCount := slaveUniqueCount l + 1\<rparr>
      else if \<not> contains [QUOTE, CHR ''b'', CHR ''a'', CHR ''k'', QUOTE] (a ! DATACENTER) then
        (add_node (''MISC_FAILOVER'' @ show_nat (backupUniqueCount l)) (db_config a) l)
          \<lparr>backupUniqueCount := backupUniqueCount l + 1\<rparr>
      else l)"

text \<open>
  \<open>aHost[ aHost.length - 3 ]\<close> with fewer than three labels is undefined, which \<open>indexOf\<close> reads as a
  word.
\<close>

definition installed_dc :: "string list \<Rightarrow> string" where
  "installed_dc aHost = (if length aHost < 3 then ''undefined'' else aHost ! (length aHost - 3))"

definition load_line ::
  "'n numbers \<Rightarrow> string \<Rightarrow> (bool \<Rightarrow> int option) option \<Rightarrow> string \<Rightarrow> loading \<Rightarrow> loading" where
  "load_line N hostname callBack s l =
     (let l = (case dataset_name s of None \<Rightarrow> l | Some w \<Rightarrow> l\<lparr>currentDataset := Some w\<rparr>)
      in if currentDataset l \<noteq> Some ''misc'' then l
         else if \<not> server_line s then l
         else
           let a = line_settings s
           in if 11 \<noteq> length a then l
              else if to_number N (a ! WRITE_MASTER) = Some (one N) then
                add_node ''MISC_MASTER'' ((db_config a)\<lparr>multipleStatements := True\<rparr>) l
              else
                let aHost = split_on (CHR ''.'') hostname
                in if length aHost < 4 then
                     (case callBack of
                        None \<Rightarrow> l\<lparr>load_end := Some (Returned False)\<rparr>
                      | Some f \<Rightarrow>
                          (case f False of
                             Some code \<Rightarrow> l\<lparr>load_end := Some (Exited code)\<rparr>
                           | None \<Rightarrow> add_server a (installed_dc aHost) l))
                   else add_server a (installed_dc aHost) l)"

fun load_lines ::
  "'n numbers \<Rightarrow> string \<Rightarrow> (bool \<Rightarrow> int option) option \<Rightarrow> string list \<Rightarrow> loading \<Rightarrow> loading" where
  "load_lines N hostname callBack [] l =
     (case callBack of
        None \<Rightarrow> l\<lparr>load_end := Some (Returned True)\<rparr>
      | Some f \<Rightarrow> l\<lparr>load_end := Some (case f True of None \<Rightarrow> Called_back | Some code \<Rightarrow> Exited code)\<rparr>)"
| "load_lines N hostname callBack (s # ss) l =
     (let l1 = load_line N hostname callBack s l
      in if load_end l1 = None then load_lines N hostname callBack ss l1 else l1)"

text \<open>\<open>readFileSync\<close> throws where the file cannot be read, and never returns undefined.\<close>

definition load_pools ::
  "'n numbers \<Rightarrow> string \<Rightarrow> (bool \<Rightarrow> int option) option \<Rightarrow> string \<Rightarrow> loading" where
  "load_pools N hostname callBack data =
     load_lines N hostname callBack (split_on NEWLINE data)
       \<lparr>currentDataset = None, slaveUniqueCount = 1, backupUniqueCount = 1, nodes = [], load_end = None\<rparr>"

definition db_init :: "bool \<Rightarrow> int option" where
  "db_init success = (if success then None else Some 1)"

section \<open>The clusters\<close>

text \<open>
  The pool clusters created, each by its number, and the nodes added to them; \<open>poolCluster\<close> is the
  module's variable, \<open>exported\<close> the value the other module reads.
\<close>

record pools =
  poolCluster :: nat
  created :: nat
  exported :: nat
  members :: "(nat \<times> string \<times> db_node) list"

definition boot_pools :: pools where
  "boot_pools = \<lparr>poolCluster = 0, created = 1, exported = 0, members = []\<rparr>"

definition load_config ::
  "'n numbers \<Rightarrow> string \<Rightarrow> (bool \<Rightarrow> int option) option \<Rightarrow> string option \<Rightarrow> pools \<Rightarrow> pools" where
  "load_config N hostname callBack data p =
     (case data of
        None \<Rightarrow> p
      | Some d \<Rightarrow>
          p\<lparr>members := members p @ map (Pair (poolCluster p)) (nodes (load_pools N hostname callBack d))\<rparr>)"

definition reload_pools :: "'n numbers \<Rightarrow> string \<Rightarrow> string option \<Rightarrow> pools \<Rightarrow> pools" where
  "reload_pools N hostname data p =
     load_config N hostname None data (p\<lparr>poolCluster := created p, created := created p + 1\<rparr>)"

text \<open>
  \<open>update\<close>: whether the original file is newer after the script has run, which must succeed and print
  nothing.  \<open>stat\<close> gives the modification time, the script what it printed; \<open>None\<close> is an error.
\<close>

definition update_pools :: "int option \<Rightarrow> string option \<Rightarrow> int option \<Rightarrow> bool" where
  "update_pools before script after =
     (case before of
        None \<Rightarrow> False
      | Some mDate \<Rightarrow>
          (case script of
             None \<Rightarrow> False
           | Some stdout \<Rightarrow>
               if 0 = length stdout then
                 (case after of None \<Rightarrow> False | Some t \<Rightarrow> t > mDate)
               else False))"

end
