(* ===== verification/Dbpools_Properties.thy ===== *)
theory Dbpools_Properties
  imports Dbpools
begin

text \<open>
  The file of database servers as it is written, and what is read back from it: the servers that
  reach each kind of pool.  The last section follows a reload.
\<close>

section \<open>Writing the file\<close>

text \<open>
  A setting is a text and whether it is quoted; a row is a line of settings; a section is a dataset
  with its rows.
\<close>

type_synonym setting = "bool \<times> string"

definition write_setting :: "setting \<Rightarrow> string" where
  "write_setting f = (if fst f then [QUOTE] @ snd f @ [QUOTE] else snd f)"

abbreviation TAB :: char where "TAB \<equiv> CHR 0x09"

definition write_row :: "setting list \<Rightarrow> string" where
  "write_row fs = [TAB, TAB] @ ''array( '' @ join '', '' (map write_setting fs) @ '' ),''"

definition write_head :: "string \<Rightarrow> string" where
  "write_head name = [TAB, QUOTE] @ name @ [QUOTE] @ '' => array( ''"

definition write_section :: "string \<times> setting list list \<Rightarrow> string list" where
  "write_section x = write_head (fst x) # map write_row (snd x) @ [TAB # '')'']"

definition write_file :: "(string \<times> setting list list) list \<Rightarrow> string" where
  "write_file xs = join [NEWLINE] (''$db_servers = array('' # concat (map write_section xs) @ ['');''])"

text \<open>What a text must not contain, and the form of a row and of a section.\<close>

definition plain :: "string \<Rightarrow> bool" where
  "plain s \<longleftrightarrow> set s \<inter> {QUOTE, DQUOTE, CHR '' '', CHR '','', NEWLINE} = {}"

definition row_ok :: "setting list \<Rightarrow> bool" where
  "row_ok fs \<longleftrightarrow> length fs = 11 \<and> fst (hd fs) \<and> (\<forall>f \<in> set fs. plain (snd f))"

definition section_ok :: "string \<times> setting list list \<Rightarrow> bool" where
  "section_ok x \<longleftrightarrow> fst x \<noteq> [] \<and> (\<forall>ch \<in> set (fst x). name_char ch) \<and> (\<forall>r \<in> set (snd x). row_ok r)"

section \<open>Reading a line\<close>

lemma index_of_char: "index_of [ch] s = (if ch \<in> set s then Some (length (takeWhile (\<lambda>x. x \<noteq> ch) s)) else None)"
  by (induction s) auto

lemma split_on_append: "ch \<notin> set w \<Longrightarrow> split_on ch (w @ ch # s) = w # split_on ch s"
  by (induction w) auto

lemma split_on_notin: "ch \<notin> set w \<Longrightarrow> split_on ch w = [w]"
  by (induction w) auto

lemma split_on_join:
  "ws \<noteq> [] \<Longrightarrow> (\<forall>w \<in> set ws. ch \<notin> set w) \<Longrightarrow> split_on ch (join [ch] ws) = ws"
  by (induction "[ch]" ws rule: join.induct) (simp_all add: split_on_notin split_on_append)

lemma filter_join:
  "filter P (join sep ws) = join (filter P sep) (map (filter P) ws)"
  by (induction sep ws rule: join.induct) simp_all

lemma set_join: "set (join sep ws) \<subseteq> set sep \<union> \<Union> (set ` set ws)"
  by (induction sep ws rule: join.induct) auto

text \<open>The settings of a row are read back.\<close>

lemma read_row:
  assumes "row_ok fs"
  shows "line_settings (write_row fs) = map snd fs"
proof -
  obtain w fs' where fs: "fs = (True, w) # fs'"
    using assms by (cases fs) (auto simp: row_ok_def)
  define body where "body = join '', '' (map write_setting fs) @ '' ''"
  obtain body' where b: "body = QUOTE # body'"
    by (cases fs') (simp_all add: body_def fs write_setting_def)
  have line: "write_row fs = ([TAB, TAB] @ ''array( '') @ body @ ''),''"
    by (simp add: write_row_def body_def)
  have i: "char_index QUOTE (write_row fs) = 9"
    by (simp add: char_index_def index_of_char line b)
  have "last_char_index (CHR '')'') (write_row fs) = int (length (write_row fs)) - 2"
    by (simp add: last_char_index_def index_of_char line)
  then have s: "substr (char_index QUOTE (write_row fs))
      (last_char_index (CHR '')'') (write_row fs) - char_index QUOTE (write_row fs)) (write_row fs) = body"
    by (simp add: substr_def i) (simp add: line)
  let ?P = "\<lambda>ch. ch \<noteq> QUOTE \<and> ch \<noteq> DQUOTE \<and> ch \<noteq> CHR '' ''"
  have "filter ?P (write_setting f) = snd f" if "f \<in> set fs" for f
    using assms that by (auto simp: row_ok_def plain_def write_setting_def intro!: filter_True)
  then have "filter ?P body = join '','' (map snd fs)"
    by (simp add: body_def filter_join comp_def cong: map_cong)
  moreover have "split_on (CHR '','') (join '','' (map snd fs)) = map snd fs"
    using assms by (intro split_on_join) (auto simp: row_ok_def plain_def fs)
  ultimately show ?thesis by (simp only: line_settings_def Let_def s)
qed

lemma spaces [simp]: "is_space TAB" "is_space (CHR '' '')" "\<not> is_space QUOTE" "\<not> is_space (CHR ''a'')"
  "\<not> is_space (CHR ''$'')" "\<not> is_space (CHR '')'')" "\<not> is_space (CHR ''='')" "\<not> name_char QUOTE"
  by (simp_all add: is_space_def name_char_def)

lemma row_line: "server_line (write_row fs)" "dataset_name (write_row fs) = None"
  by (simp_all add: server_line_def write_row_def skip_spaces_def dataset_name_def Let_def)

lemma head_line:
  assumes "name \<noteq> []" and "\<forall>ch \<in> set name. name_char ch"
  shows "dataset_name (write_head name) = Some name" and "\<not> server_line (write_head name)"
proof -
  have t: "takeWhile name_char (name @ QUOTE # r) = name" "dropWhile name_char (name @ QUOTE # r) = QUOTE # r" for r
    using assms(2) by (simp_all add: takeWhile_append dropWhile_append)
  show "dataset_name (write_head name) = Some name"
    using assms(1) by (simp add: dataset_name_def write_head_def t skip_spaces_def Let_def)
  show "\<not> server_line (write_head name)"
    by (simp add: server_line_def write_head_def skip_spaces_def)
qed

lemma other_lines:
  "dataset_name ''$db_servers = array('' = None" "\<not> server_line ''$db_servers = array(''"
  "dataset_name (TAB # '')'') = None" "\<not> server_line (TAB # '')'')"
  "dataset_name '');'' = None" "\<not> server_line '');''"
  by (simp_all add: dataset_name_def server_line_def skip_spaces_def Let_def)

section \<open>Reading the file\<close>

text \<open>What a row does, on a host in the data centre \<open>dc\<close>.\<close>

definition is_master :: "'n numbers \<Rightarrow> string list \<Rightarrow> bool" where
  "is_master N a = (to_number N (a ! WRITE_MASTER) = Some (one N))"

definition place_row :: "'n numbers \<Rightarrow> string \<Rightarrow> string list \<Rightarrow> loading \<Rightarrow> loading" where
  "place_row N dc a l =
     (if is_master N a then add_node ''MISC_MASTER'' ((db_config a)\<lparr>multipleStatements := True\<rparr>) l
      else add_server a dc l)"

definition place_section :: "'n numbers \<Rightarrow> string \<Rightarrow> string \<times> setting list list \<Rightarrow> loading \<Rightarrow> loading" where
  "place_section N dc x l =
     (if fst x = ''misc'' then fold (place_row N dc) (map (map snd) (snd x)) (l\<lparr>currentDataset := Some (fst x)\<rparr>)
      else l\<lparr>currentDataset := Some (fst x)\<rparr>)"

definition misc_rows :: "(string \<times> setting list list) list \<Rightarrow> string list list" where
  "misc_rows xs = map (map snd) (concat (map snd (filter (\<lambda>x. fst x = ''misc'') xs)))"

lemma place_row_frame [simp]:
  "currentDataset (place_row N dc a l) = currentDataset l" "load_end (place_row N dc a l) = load_end l"
  by (simp_all add: place_row_def add_server_def add_node_def)

lemma place_rows_frame [simp]:
  "currentDataset (fold (place_row N dc) rows l) = currentDataset l"
  "load_end (fold (place_row N dc) rows l) = load_end l"
  by (induction rows arbitrary: l) simp_all

lemma place_row_dataset:
  "place_row N dc a (l\<lparr>currentDataset := d\<rparr>) = (place_row N dc a l)\<lparr>currentDataset := d\<rparr>"
  by (simp add: place_row_def add_server_def add_node_def)

lemma place_rows_dataset:
  "fold (place_row N dc) rows (l\<lparr>currentDataset := d\<rparr>) = (fold (place_row N dc) rows l)\<lparr>currentDataset := d\<rparr>"
  by (induction rows arbitrary: l) (simp_all add: place_row_dataset)

text \<open>The data centre of a host with a name of at least four labels.\<close>

definition host_in :: "string \<Rightarrow> string \<Rightarrow> bool" where
  "host_in hostname dc \<longleftrightarrow> 4 \<le> length (split_on (CHR ''.'') hostname) \<and>
     dc = split_on (CHR ''.'') hostname ! (length (split_on (CHR ''.'') hostname) - 3)"

lemma load_row:
  assumes "host_in hostname dc" and "row_ok fs"
  shows "load_line N hostname cb (write_row fs) l =
     (if currentDataset l = Some ''misc'' then place_row N dc (map snd fs) l else l)"
  using assms
  by (simp add: load_line_def row_line read_row host_in_def installed_dc_def place_row_def is_master_def Let_def)
    (simp add: row_ok_def)

lemma load_other:
  "dataset_name s = None \<Longrightarrow> \<not> server_line s \<Longrightarrow> load_line N hostname cb s l = l"
  by (simp add: load_line_def)

lemma load_head:
  "name \<noteq> [] \<Longrightarrow> \<forall>ch \<in> set name. name_char ch \<Longrightarrow>
   load_line N hostname cb (write_head name) l = l\<lparr>currentDataset := Some name\<rparr>"
  by (simp add: load_line_def head_line Let_def)

lemma load_rows:
  assumes "host_in hostname dc" and "\<forall>r \<in> set rs. row_ok r" and "load_end l = None"
  shows "load_lines N hostname cb (map write_row rs @ ss) l =
     load_lines N hostname cb ss
       (if currentDataset l = Some ''misc'' then fold (place_row N dc) (map (map snd) rs) l else l)"
  using assms by (induction rs arbitrary: l) (simp_all add: load_row Let_def)

lemma load_section:
  assumes "host_in hostname dc" and "section_ok x" and "load_end l = None"
  shows "load_lines N hostname cb (write_section x @ ss) l =
     load_lines N hostname cb ss (place_section N dc x l)"
proof -
  have "load_lines N hostname cb (write_section x @ ss) l =
      load_lines N hostname cb (map write_row (snd x) @ (TAB # '')'') # ss) (l\<lparr>currentDataset := Some (fst x)\<rparr>)"
    using assms by (simp add: write_section_def load_head section_ok_def Let_def)
  also have "\<dots> = load_lines N hostname cb ss (place_section N dc x l)"
    using assms by (simp add: load_rows section_ok_def place_section_def load_other other_lines Let_def)
  finally show ?thesis .
qed

lemma place_section_end [simp]: "load_end (place_section N dc x l) = load_end l"
  by (simp add: place_section_def)

lemma load_sections:
  "host_in hostname dc \<Longrightarrow> \<forall>x \<in> set xs. section_ok x \<Longrightarrow> load_end l = None \<Longrightarrow>
   load_lines N hostname cb (concat (map write_section xs) @ ss) l =
     load_lines N hostname cb ss (fold (place_section N dc) xs l)"
  by (induction xs arbitrary: l) (simp_all add: load_section)

lemma place_sections:
  "\<exists>d. fold (place_section N dc) xs l = (fold (place_row N dc) (misc_rows xs) l)\<lparr>currentDataset := d\<rparr>"
proof (induction xs arbitrary: l)
  case Nil
  show ?case by (rule exI [of _ "currentDataset l"]) (simp add: misc_rows_def)
next
  case (Cons x xs)
  obtain d where "fold (place_section N dc) xs (place_section N dc x l) =
      (fold (place_row N dc) (misc_rows xs) (place_section N dc x l))\<lparr>currentDataset := d\<rparr>"
    using Cons.IH by blast
  then have "fold (place_section N dc) (x # xs) l =
      (fold (place_row N dc) (misc_rows (x # xs)) l)\<lparr>currentDataset := d\<rparr>"
    by (simp add: place_section_def misc_rows_def place_rows_dataset)
  then show ?case by blast
qed

text \<open>The nodes of each kind that the rows add.\<close>

lemma place_rows_nodes:
  fixes N :: "'n numbers" and dc :: string
  assumes "\<forall>a \<in> set rows. QUOTE \<notin> set (a ! DATACENTER)"
  defines "ns \<equiv> \<lambda>l. nodes (fold (place_row N dc) rows l)"
    and "slaves \<equiv> filter (\<lambda>a. \<not> is_master N a \<and> contains dc (a ! DATACENTER)) rows"
    and "others \<equiv> filter (\<lambda>a. \<not> is_master N a \<and> \<not> contains dc (a ! DATACENTER)) rows"
  shows "filter (\<lambda>n. fst n = ''MISC_MASTER'') (ns l) = filter (\<lambda>n. fst n = ''MISC_MASTER'') (nodes l) @
      map (\<lambda>a. (''MISC_MASTER'', (db_config a)\<lparr>multipleStatements := True\<rparr>)) (filter (is_master N) rows) \<and>
    filter (\<lambda>n. is_prefix ''MISC_SLAVE'' (fst n)) (ns l) =
      filter (\<lambda>n. is_prefix ''MISC_SLAVE'' (fst n)) (nodes l) @
      map (\<lambda>(i, a). (''MISC_SLAVE'' @ show_nat i, db_config a)) (enumerate (slaveUniqueCount l) slaves) \<and>
    filter (\<lambda>n. is_prefix ''MISC_FAILOVER'' (fst n)) (ns l) =
      filter (\<lambda>n. is_prefix ''MISC_FAILOVER'' (fst n)) (nodes l) @
      map (\<lambda>(i, a). (''MISC_FAILOVER'' @ show_nat i, db_config a)) (enumerate (backupUniqueCount l) others) \<and>
    length (ns l) = length (nodes l) + length rows"
proof -
  have bak: "\<not> contains [QUOTE, CHR ''b'', CHR ''a'', CHR ''k'', QUOTE] (a ! DATACENTER)" if "a \<in> set rows" for a
    using assms(1) that contains_set by fastforce
  show ?thesis
    using bak unfolding ns_def slaves_def others_def
    by (induction rows arbitrary: l) (simp_all add: place_row_def add_server_def add_node_def)
qed

section \<open>What is read back\<close>

lemma plain_lines:
  assumes "section_ok x" and "s \<in> set (write_section x)"
  shows "NEWLINE \<notin> set s"
proof -
  have n: "\<not> name_char NEWLINE" by (simp add: name_char_def)
  have r: "NEWLINE \<notin> set (write_row fs)" if "row_ok fs" for fs
    using that set_join [of "'', ''" "map write_setting fs"]
    by (auto simp: write_row_def row_ok_def plain_def write_setting_def split: if_splits)
  have "NEWLINE \<notin> set (write_head (fst x))" using assms(1) n by (auto simp: write_head_def section_ok_def)
  with assms r show ?thesis by (auto simp: write_section_def section_ok_def)
qed

lemma file_lines:
  assumes "\<forall>x \<in> set xs. section_ok x"
  shows "split_on NEWLINE (write_file xs) = ''$db_servers = array('' # concat (map write_section xs) @ ['');'']"
  using assms plain_lines unfolding write_file_def by (intro split_on_join) auto

text \<open>
  C19. The file of database servers, as it is written, is read back: of its \<open>misc\<close> rows each master becomes
  MISC_MASTER, each other server of the host's data centre the next MISC_SLAVE and each remaining one the
  next MISC_FAILOVER, both numbered from 1 in the order of the file, with the address of the fourth
  setting; every such row is one node, no row of another dataset is, and the load reports success once.
\<close>

theorem config_file_is_read:
  fixes N :: "'n numbers"
  defines "l \<equiv> \<lambda>hostname xs. load_pools N hostname (Some db_init) (write_file xs)"
    and "rows \<equiv> \<lambda>xs. map (map snd) (concat (map snd (filter (\<lambda>x. fst x = ''misc'') xs)))"
    and "labels \<equiv> split_on (CHR ''.'')"
    and "master \<equiv> \<lambda>a. to_number N (a ! 2) = Some (one N)"
  assumes "\<forall>x \<in> set xs. section_ok x" and "4 \<le> length (labels hostname)"
    and "dc = labels hostname ! (length (labels hostname) - 3)"
  shows "load_end (l hostname xs) = Some Called_back \<and>
    filter (\<lambda>n. fst n = ''MISC_MASTER'') (nodes (l hostname xs)) =
      map (\<lambda>a. (''MISC_MASTER'', (db_config a)\<lparr>multipleStatements := True\<rparr>)) (filter master (rows xs)) \<and>
    filter (\<lambda>n. is_prefix ''MISC_SLAVE'' (fst n)) (nodes (l hostname xs)) =
      map (\<lambda>(i, a). (''MISC_SLAVE'' @ show_nat i, db_config a))
        (enumerate 1 (filter (\<lambda>a. \<not> master a \<and> contains dc (a ! 0)) (rows xs))) \<and>
    filter (\<lambda>n. is_prefix ''MISC_FAILOVER'' (fst n)) (nodes (l hostname xs)) =
      map (\<lambda>(i, a). (''MISC_FAILOVER'' @ show_nat i, db_config a))
        (enumerate 1 (filter (\<lambda>a. \<not> master a \<and> \<not> contains dc (a ! 0)) (rows xs))) \<and>
    length (nodes (l hostname xs)) = length (rows xs)"
proof -
  define l0 where "l0 = \<lparr>currentDataset = None, slaveUniqueCount = 1, backupUniqueCount = 1, nodes = [], load_end = None\<rparr>"
  have l0: "load_end l0 = None" by (simp add: l0_def)
  have h: "host_in hostname dc" using assms by (simp add: host_in_def)
  have r: "rows xs = misc_rows xs" by (simp add: rows_def misc_rows_def)
  obtain d where d: "fold (place_section N dc) xs l0 = (fold (place_row N dc) (misc_rows xs) l0)\<lparr>currentDataset := d\<rparr>"
    using place_sections by blast
  have "l hostname xs = load_lines N hostname (Some db_init) (split_on NEWLINE (write_file xs)) l0"
    by (simp add: l_def load_pools_def l0_def)
  also have "\<dots> = load_lines N hostname (Some db_init) (concat (map write_section xs) @ ['');'']) l0"
    by (simp add: file_lines [OF assms(5)] load_other other_lines l0_def del: One_nat_def)
  also have "\<dots> = load_lines N hostname (Some db_init) ['');''] (fold (place_section N dc) xs l0)"
    by (rule load_sections [OF h assms(5) l0])
  finally have "l hostname xs = load_lines N hostname (Some db_init) ['');''] (fold (place_section N dc) xs l0)" .
  then have l: "l hostname xs = (fold (place_row N dc) (misc_rows xs) l0)
      \<lparr>currentDataset := d, load_end := Some Called_back\<rparr>"
    by (simp add: d load_other other_lines db_init_def Let_def l0)
  have q: "QUOTE \<notin> set (a ! DATACENTER)" if a: "a \<in> set (misc_rows xs)" for a
  proof -
    obtain fs where "row_ok fs" "a = map snd fs"
      using a assms(5) by (auto simp: misc_rows_def section_ok_def)
    then show ?thesis by (auto simp: row_ok_def plain_def DATACENTER_def)
  qed
  have m: "is_master N = master" by (simp add: fun_eq_iff is_master_def master_def WRITE_MASTER_def)
  have q': "\<forall>a \<in> set (misc_rows xs). QUOTE \<notin> set (a ! DATACENTER)" using q by blast
  have "nodes (l hostname xs) = nodes (fold (place_row N dc) (misc_rows xs) l0)"
      "load_end (l hostname xs) = Some Called_back"
    by (simp_all add: l)
  with place_rows_nodes [OF q', of N dc l0] r m
  show ?thesis by (simp add: l0_def DATACENTER_def)
qed

section \<open>A reload\<close>

lemma load_config_frame [simp]:
  "created (load_config N hostname cb data p) = created p"
  "exported (load_config N hostname cb data p) = exported p"
  by (simp_all add: load_config_def split: option.split)

text \<open>
  C20. Reloading the list of servers does not reach the queries: the new nodes go to a new cluster, but the
  module exports the cluster it had when it was loaded.  However often the file changes and is
  reloaded, the cluster that is queried has the servers of the first load.
\<close>

theorem reload_reaches_no_query:
  fixes N :: "'n numbers"
  defines "start \<equiv> \<lambda>hostname data. load_config N hostname (Some db_init) (Some data) boot_pools"
    and "queried \<equiv> \<lambda>p. map snd (filter (\<lambda>m. fst m = exported p) (members p))"
  shows "queried (fold (reload_pools N hostname) files (start hostname data)) =
    nodes (load_pools N hostname (Some db_init) data)"
proof -
  have "exported p < created p \<Longrightarrow> queried (fold (reload_pools N hostname) files p) = queried p" for p
  proof (induction files arbitrary: p)
    case (Cons x xs)
    define q where "q = reload_pools N hostname x p"
    have "exported q = exported p" "created q = created p + 1"
      by (simp_all add: q_def reload_pools_def)
    moreover have "queried q = queried p"
      using Cons.prems
      by (auto simp: q_def reload_pools_def load_config_def queried_def filter_map comp_def split: option.split)
    ultimately show ?case using Cons.IH [of q] Cons.prems by (simp add: q_def)
  qed simp
  moreover have "queried (start hostname data) = nodes (load_pools N hostname (Some db_init) data)"
    by (simp add: queried_def start_def load_config_def boot_pools_def filter_map comp_def)
  ultimately show ?thesis by (simp add: start_def boot_pools_def)
qed

text \<open>The sample file, with a server of another data centre added.\<close>

definition sample_row :: "string \<Rightarrow> string \<Rightarrow> string \<Rightarrow> setting list" where
  "sample_row dc readable writable = [(True, dc), (False, readable), (False, writable), (True, ''mysqldb:1''),
     (True, ''mysqldb:1''), (True, ''db''), (True, ''u''), (True, ''pw''), (False, ''null''), (False, ''null''),
     (False, ''30'')]"

definition sample_file :: "(string \<times> setting list list) list" where
  "sample_file = [(''misc'', [sample_row ''jetmon'' ''0'' ''1'', sample_row ''jetmon'' ''1'' ''0'',
     sample_row ''far'' ''1'' ''0'']), (''global'', [sample_row ''jetmon'' ''1'' ''0''])]"

definition digits :: "int numbers" where
  "digits = \<lparr>to_number = (\<lambda>s. if s = ''0'' then Some 0 else if s = ''1'' then Some 1 else None),
     num_str = show_int, zero = 0, one = 1\<rparr>"

theorem config_file_is_read_witness:
  "length (nodes (load_pools digits ''docker.jetmon.dev.com'' (Some db_init) (write_file sample_file))) = 3"
proof -
  have "\<forall>x \<in> set sample_file. section_ok x" "4 \<le> length (split_on (CHR ''.'') ''docker.jetmon.dev.com'')"
    by code_simp+
  from config_file_is_read [OF this refl, of digits]
  show ?thesis by (simp add: sample_file_def)
qed

end
