(* ===== verification/Comms.thy ===== *)
theory Comms
  imports Sites "HOL-Library.Word"
begin

text \<open>
  \<open>lib/comms.js\<close>: the requests to the verifliers.  A string of the language is its UTF-16 code units;
  \<open>JSON.stringify\<close> and \<open>JSON.parse\<close> are given by the caller, and so are the events of the HTTPS client.
\<close>

type_synonym units = "16 word list"

text \<open>The bytes \<open>request.write\<close> sends for a string: its UTF-8 encoding.\<close>

definition one_byte :: "16 word \<Rightarrow> bool" where
  "one_byte u = (u < 0x80)"

definition two_bytes :: "16 word \<Rightarrow> bool" where
  "two_bytes u = (0x80 \<le> u \<and> u < 0x800)"

definition surrogates :: "16 word \<Rightarrow> 16 word \<Rightarrow> bool" where
  "surrogates u v = (0xD800 \<le> u \<and> u < 0xDC00 \<and> 0xDC00 \<le> v \<and> v < 0xE000)"

fun utf8_length :: "units \<Rightarrow> nat" where
  "utf8_length [] = 0"
| "utf8_length [u] = (if one_byte u then 1 else if two_bytes u then 2 else 3)"
| "utf8_length (u # v # us) =
     (if one_byte u then 1 + utf8_length (v # us)
      else if two_bytes u then 2 + utf8_length (v # us)
      else if surrogates u v then 4 + utf8_length us
      else 3 + utf8_length (v # us))"

section \<open>Requests\<close>

text \<open>The objects sent, and the options of a request; \<open>req_body\<close> is null for a GET.\<close>

record status_query =
  sq_auth_token :: string
  sq_blog_id :: nat
  sq_monitor_url :: string

record 'k batch_request =
  br_auth_token :: string
  br_checks :: "'k list"

record request =
  req_hostname :: string
  req_port :: string
  req_path :: units
  req_method :: string
  req_content_length :: "nat option"
  req_body :: "units option"

definition units_of :: "string \<Rightarrow> units" where
  "units_of s = map (\<lambda>ch. word_of_nat (of_char ch)) s"

definition get_remote_status ::
  "(status_query \<Rightarrow> units) \<Rightarrow> config \<Rightarrow> verifier \<Rightarrow> nat \<Rightarrow> string \<Rightarrow> request" where
  "get_remote_status stringify c v blog s_server =
     (let o_request = \<lparr>sq_auth_token = AUTH_TOKEN c, sq_blog_id = blog, sq_monitor_url = s_server\<rparr>;
          request_str = stringify o_request
      in \<lparr>req_hostname = v_host v, req_port = v_port v,
          req_path = units_of ''/get/host-status?d='' @ request_str,
          req_method = ''GET'', req_content_length = None, req_body = None\<rparr>)"

definition get_remote_status_array ::
  "('k batch_request \<Rightarrow> units) \<Rightarrow> config \<Rightarrow> verifier \<Rightarrow> 'k list \<Rightarrow> request" where
  "get_remote_status_array stringify c v checkArray =
     (let o_request = \<lparr>br_auth_token = AUTH_TOKEN c, br_checks = checkArray\<rparr>;
          requestData = stringify o_request
      in \<lparr>req_hostname = v_host v, req_port = v_port v, req_path = units_of ''/get/host-status'',
          req_method = ''POST'', req_content_length = Some (length requestData),
          req_body = Some requestData\<rparr>)"

section \<open>Replies\<close>

text \<open>
  The reply handed to the callback: the parsed body, or an object with status -1 and a reason.
\<close>

datatype 'j reply = Parsed 'j | Failed string

text \<open>A response that has ended: its code and the chunks of its body.\<close>

datatype client_event = Ended nat "string list" | Errored | Timed_out

fun client_reply :: "(string \<Rightarrow> 'j option) \<Rightarrow> client_event \<Rightarrow> 'j reply" where
  "client_reply parse (Ended code chunks) =
     (if 200 = code then
        (case parse (concat chunks) of Some j \<Rightarrow> Parsed j | None \<Rightarrow> Failed ''PARSE_ERROR'')
      else Failed ''CODE_ERROR'')"
| "client_reply parse Errored = Failed ''REQUEST_ERROR''"
| "client_reply parse Timed_out = Failed ''TIMEOUT_ERROR''"

definition perform_request :: "(string \<Rightarrow> 'j option) \<Rightarrow> client_event list \<Rightarrow> 'j reply list" where
  "perform_request parse es = map (client_reply parse) es"

text \<open>
  A veriflier's answer does not depend on how its body was cut into chunks, and only an answer
  with code 200 that parses reaches the caller as data: everything else is a failure.
\<close>

theorem answer_ignores_chunking:
  "concat chunks = concat chunks' \<Longrightarrow>
   perform_request parse [Ended code chunks] = perform_request parse [Ended code chunks'] \<and>
   (perform_request parse [Ended code chunks] = [Parsed j] \<longleftrightarrow>
      code = 200 \<and> parse (concat chunks) = Some j)"
  by (auto simp: perform_request_def split: option.splits)

theorem answer_ignores_chunking_witness:
  "perform_request Some [Ended 200 [''o'', ''k'']] = [Parsed ''ok'']"
  by (rule answer_ignores_chunking [of _ "[''ok'']", THEN conjunct2, THEN iffD2]) simp_all

section \<open>The length of a body\<close>

lemma utf8_length_ge: "length us \<le> utf8_length us"
  by (induction us rule: utf8_length.induct) auto

lemma utf8_length_ascii: "(\<forall>u \<in> set us. one_byte u) \<Longrightarrow> utf8_length us = length us"
  by (induction us rule: utf8_length.induct) auto

lemma utf8_length_eq: "utf8_length us = length us \<Longrightarrow> \<forall>u \<in> set us. one_byte u"
proof (induction us rule: utf8_length.induct)
  case (3 u v us)
  have ge: "length (v # us) \<le> utf8_length (v # us)" "length us \<le> utf8_length us"
    by (rule utf8_length_ge)+
  show ?case
  proof (cases "one_byte u")
    case True
    with "3.prems" have "utf8_length (v # us) = length (v # us)" by simp
    with "3.IH"(1) [OF True] True show ?thesis by simp
  next
    case False
    then have "utf8_length (u # v # us) > length (u # v # us)"
      using ge by (cases "two_bytes u"; cases "surrogates u v") simp_all
    with "3.prems" show ?thesis by simp
  qed
qed (auto split: if_splits)

text \<open>
  C39. The Content-Length of a batch is the number of UTF-16 units of its text.  It is never more than
  the bytes sent, and it is right only for pure ASCII: one site address with another character in
  it makes the announced length too short for the whole batch.
\<close>

theorem content_length_counts_units:
  "req_body r = Some us \<Longrightarrow> r = get_remote_status_array stringify c v batch \<Longrightarrow>
   \<exists>n. req_content_length r = Some n \<and> n \<le> utf8_length us \<and>
     (n = utf8_length us \<longleftrightarrow> (\<forall>u \<in> set us. one_byte u))"
proof -
  assume "req_body r = Some us" and "r = get_remote_status_array stringify c v batch"
  then have "req_content_length r = Some (length us)"
    by (simp add: get_remote_status_array_def Let_def)
  moreover have "length us = utf8_length us \<longleftrightarrow> (\<forall>u \<in> set us. one_byte u)"
    using utf8_length_ascii utf8_length_eq by metis
  ultimately show ?thesis using utf8_length_ge by blast
qed

theorem content_length_counts_units_witness:
  "let r = get_remote_status_array br_checks sample_config (\<lparr>v_name = ''v'', v_host = ''h'', v_port = ''1'', v_auth_token = ''t''\<rparr>)
             [0x22, 0xE9, 0x22 :: 16 word]
   in req_content_length r = Some 3 \<and> utf8_length [0x22, 0xE9, 0x22] = 4"
proof -
  let ?us = "[0x22, 0xE9, 0x22 :: 16 word]"
  let ?r = "get_remote_status_array br_checks sample_config (\<lparr>v_name = ''v'', v_host = ''h'', v_port = ''1'', v_auth_token = ''t''\<rparr>) ?us"
  have "req_body ?r = Some ?us" by (simp add: get_remote_status_array_def Let_def)
  from content_length_counts_units [OF this refl] obtain n where
    n: "req_content_length ?r = Some n" "n = utf8_length ?us \<longleftrightarrow> (\<forall>u \<in> set ?us. one_byte u)"
    by blast
  have "n = 3" using n(1) by (simp add: get_remote_status_array_def Let_def)
  moreover have "utf8_length ?us = 4" by (simp add: one_byte_def two_bytes_def)
  ultimately show ?thesis using n(1) by (simp add: Let_def)
qed

end
