(* ===== verification/Spec2Isabelle.thy ===== *)
theory Spec2Isabelle
  imports Handshake Answers Notices Retry_Properties Report_Properties Statsd_Properties Database_Properties
    Dbpools_Properties Wpcom Comms
begin

text \<open>
  Jetmon watches the sites of WordPress.com.  A master process fetches the sites of its share of the
  database in batches and hands them to worker processes; a worker checks its sites with a native
  add-on and reports every change; a site found down is checked again, then the verifliers, services on
  other hosts, are asked about it; when enough of them confirm, WPCOM is notified.  This development
  models the program under \<open>src/lib\<close> file by file, in shallow definitions that run, and proves
  what each process promises, what the processes promise each other, and where the code falls short.

  \<^bold>\<open>The program and the theories.\<close>  A handler of the source is one definition that takes the state of its process and
  returns the new one; guards, early returns and the order of effects are those of the code.  What a
  process does to the outside is a trace in its state, in order.

  \<^item> \<open>Prelude\<close>: integers and strings of the language, \<open>splice\<close>, objects with integer keys (\<open>nobj\<close>), and
  the locale \<open>transition_system\<close> (an initial state, steps, what the environment guarantees, an invariant)
  that every process and every composition is an interpretation of.
  \<^item> \<open>Config\<close> (\<open>config.js\<close>): the configuration record, its cache (\<open>load\<close>, \<open>get\<close>).
  \<^item> \<open>Check_Stats\<close> (the end of \<open>processResultsCallback\<close> in \<open>httpcheck.js\<close>, the \<open>stats\<close> message in \<open>jetmon.js\<close>):
  the statistics of checks, collected in a worker and added up in the master.
  \<^item> \<open>Sites\<close>: a site on its way from a database row (\<open>row\<close>) to a worker and back (\<open>site\<close>), and the messages
  between master and worker.
  \<^item> \<open>Worker\<close>, \<open>Worker_Run\<close>, \<open>Worker_Properties\<close> (\<open>httpcheck.js\<close>): the queue \<open>arrCheck\<close> with its \<open>pointer\<close>, the checks
  in flight, the verdict on a site (\<open>judge\<close>), the messages, the limits and the exit.
  \<^item> \<open>Database\<close>, \<open>Database_Properties\<close> (\<open>database.js\<close>): the cursor over the buckets, queries, failover, commits.
  \<^item> \<open>Dbpools\<close>, \<open>Dbpools_Properties\<close> (\<open>dbpools.js\<close>): the file of database servers and the clusters of pools.
  \<^item> \<open>Statsd\<close>, \<open>Statsd_Properties\<close> (\<open>statsd.js\<close>): the buffer of metrics; its contract is the locale \<open>metrics_sink\<close>.
  \<^item> \<open>Wpcom\<close> (\<open>wpcom.js\<close>) and \<open>Comms\<close> (\<open>comms.js\<close>): the requests to WPCOM and to the verifliers and what becomes of
  the replies.
  \<^item> \<open>Master_State\<close>, \<open>Rounds\<close>, \<open>Retries\<close>, \<open>Reports\<close>, \<open>Master\<close> (\<open>jetmon.js\<close>): the module variables as the record \<open>master\<close>,
  the pool of workers, the rounds, the two queues of failed sites, the reports, and all of it as one
  transition system \<open>master_step\<close>.
  \<^item> \<open>Json\<close>, \<open>Server\<close>, \<open>Server_Properties\<close> (\<open>server.js\<close> and the \<open>cluster\<close> part of \<open>jetmon.js\<close>): the HTTPS server the
  verifliers send their results to, with the values \<open>JSON.parse\<close> gives as the code meets them.
  \<^item> \<open>Link\<close>, \<open>System\<close>: the master and its workers in one system, with the channels between them.
  \<open>Handshake\<close>: who waits for work, and that no question or answer about work is lost.  \<open>Answers\<close>: what the
  master finds in a report, whatever its members are, and the master and the HTTPS server in one system.

  \<^bold>\<open>What the lemmas show.\<close>  \<open>Master_Pool\<close>, \<open>Master_Work\<close>, \<open>Master_Run\<close> and \<open>Master_Invariant\<close> hold the master's invariant and its
  preservation by each handler: who is registered, free or halted (\<open>pool_inv\<close>), where every site is
  (\<open>sites_inv\<close>, \<open>accounted\<close>), what an entry of the veriflier queue has behind it (\<open>queues_inv\<close>).
  \<open>Retry_Lemmas\<close> specifies the loops of the tick as filters and maps.  \<open>Emissions\<close> says whom each event
  reaches.  \<open>Notices\<close> says what is behind a notice that is sent again.  The theories named \<open>_Properties\<close> state what follows, and this one what follows for the
  compositions:

  \<^item> WPCOM hears that a site is down only after the checks and answers the configuration asks for, also
  when a notice is repeated (\<open>wpcom_hears\<close>, \<open>down_notices_are_confirmed\<close>), and the answers come from the configured verifliers
  (\<open>confirmations_come_from_verifliers\<close>, \<open>reports_are_authenticated\<close>).
  \<^item> No site is lost or checked twice between the database and the check (\<open>no_site_lost\<close>,
  \<open>every_site_checked_once\<close>, \<open>handed_sites_are_checked_in_order\<close>), but for a worker that ends at a limit
  (\<open>exiting_worker_loses_sites\<close>).
  \<^item> Each process is verified under assumptions on the messages it gets (\<open>master_ok\<close>, \<open>worker_ok\<close>), and
  \<open>processes_keep_their_word\<close> discharges them: whatever one sends, the other admits.
  \<^item> Workers finish (\<open>callbacks_finish_the_queue\<close>, \<open>busy_worker_has_event\<close>), none rests while sites are queued
  (\<open>no_wakeup_is_lost\<close>), rounds cover the buckets
  (\<open>rounds_cover_buckets\<close>), numbers are bounded (\<open>parallel_checks_bounded\<close>, \<open>datagrams_are_whole_lines\<close>), reports add up
  (\<open>report_adds_up\<close>, \<open>statistics_are_exact\<close>, \<open>metrics_are_not_lost\<close>).

  \<^bold>\<open>Inputs.\<close>  Code that is not in the repository is an input of the definitions: the answers of the MySQL
  driver and of HTTPS requests, \<open>JSON.parse\<close> and \<open>JSON.stringify\<close>, the numbers of the language where a
  theorem needs no more of them, the callbacks of the native add-on, the files read, the clock, the
  memory in use, and the process ids the system gives.  A handler reads the clock once.  The
  guarantees needed of them are in the predicates named \<open>_ok\<close>: the add-on calls back once for each
  check it was given; a timer of the rounds fires that has been set, and a batch query is answered that
  has been sent, each once (\<open>roundTimers\<close>, \<open>restartTimers\<close>, \<open>queriesDue\<close>); the callback of a notice is called that
  has been made (\<open>openNotices\<close>), as often as its request fails, which can be more than once (\<open>reply_successes\<close>); the system gives a new process a positive id never used before; the exit of a worker is
  reported after its messages; requests that a worker has not read when it ends, and messages of a
  worker that is killed, are lost.  A parameter \<open>N\<close> of the master's theorems is a lower bound on
  NUM_OF_CHECKS in every configuration the process ever reads.

  \<^bold>\<open>Shared objects.\<close>  An object of the veriflier queue is shared with the callbacks of the notices made for it:
  \<open>retry_no\<close> is its identity, an open notice (\<open>told\<close>) names it, and \<open>refresh\<close> shows the notice what an answer
  adds to it.  Everything else the master passes on is a copy.  What a report of a veriflier holds is
  read as it comes out of the channel of the process: comparisons with a member give what the loose
  \<open>==\<close> of the language gives, and can throw; a member that is only stored keeps its integer, or its
  text (\<open>jsval\<close>).

  \<^bold>\<open>Integers and loops.\<close>  The counters and times of the program are numbers far below \<open>2 ^ 53\<close>, where the language is
  exact, and are \<open>int\<close> or \<open>nat\<close> here; where it rounds (sites per second) \<open>double_of\<close> gives the nearest double.
  UTF-16 code units are \<open>16 word\<close>.  Every loop of the source is a total function but one:
  \<open>batch_loop\<close> is a \<open>partial_function\<close>, and \<open>tick_returns\<close> says exactly when it ends.  No definition has fuel.

  \<^bold>\<open>Where the code falls short.\<close>  Theorems show, among others, that a failed batch query ends the fetching for good
  (\<open>failed_query_stops_fetching\<close>) and leaves the host's buckets or some of them out (\<open>failed_query_rolls_back\<close>); that
  the first batch of a process can reach into the buckets of another host (\<open>rounds_cover_buckets\<close>); that a round
  can be reported complete in its middle (\<open>round_ends_while_fetching\<close>, \<open>round_ends_with_checks_running\<close>); that one veriflier alone can confirm
  (\<open>one_veriflier_confirms_alone\<close>); that requests without a parameter end the HTTPS server
  (\<open>bare_requests_end_the_server\<close>); that a reload of the database servers has no effect on queries
  (\<open>reload_reaches_no_query\<close>).

  \<^bold>\<open>Not modelled.\<close>  The log files (their lines have no effect on the program), the options of TLS and of log4js, the
  titles of the processes, and \<open>close\<close> of the StatsD client, which nothing calls.  The native checker
  (\<open>src/src\<close>, C++) and the verifliers (\<open>src/veriflier\<close>, C++) are programs of their own: they appear as inputs.
  An exception that reaches the top of the master is only logged (\<open>uncaughtException\<close>), and what is sent to
  a process that has just ended is lost like what it has not read; the error events of the channel
  are not modelled.  Containers and build files hold
  no logic.
\<close>

section \<open>The master and its workers\<close>

text \<open>
  C4. Each process keeps the assumptions the other is verified under.  In every state the whole system
  can reach the master is in a reachable state of its own model and so is every worker; the registered
  processes are exactly those that run or whose exit is not yet reported; and every message under way
  is one that its receiver's model admits.  So every property of the master and of a worker holds of
  the system with no assumption about the other side.
\<close>

theorem processes_keep_their_word:
  assumes "system_reachable N S"
  shows "master_reachable N (parent S) \<and> dom (fleet S) = pids (parent S) \<and>
    (\<forall>p w. fleet S p = Some w \<longrightarrow> worker_reachable w \<and> pid w = p \<and>
       (\<forall>m \<in> set (pending_msgs p S). msg_ok m (parent S)) \<and>
       (exited w = None \<longrightarrow> (\<forall>r \<in> set (pending_requests p S). worker_ok (Request None rnd r) w)))"
proof -
  have S: "sys_inv N S" by (rule system_reachable_inv [OF assms])
  then have "master_reachable N (parent S)" "dom (fleet S) = pids (parent S)"
      "\<forall>p w. fleet S p = Some w \<longrightarrow> worker_reachable w \<and> pid w = p"
    by (auto simp: sys_inv_def worker_part_def)
  then show ?thesis using pending_own(1) [OF S] pending_fresh [OF S] by auto
qed

text \<open>What a step of the system adds to the trace of the master.\<close>

definition sys_effects :: "sys_event \<Rightarrow> system \<Rightarrow> out list" where
  "sys_effects e S = drop (length (outs (parent S))) (outs (parent (sys_step e S)))"

text \<open>A run: a worker asks for work, three sites arrive, and it takes the first two.\<close>

definition demo_run :: "sys_event list" where
  "demo_run = [Act 100 (Ask_timer True), Hear 100 1, Master_event idle_birth rows_event, Take 100 None (\<lambda>x. 0)]"

definition demo_system :: system where
  "demo_system = fold sys_step demo_run (boot_system idle_birth demo_pid demo_master_config 0)"

lemma rows_event_plain:
  "\<not> of_worker rows_event" "case rows_event of Count_timer fresh \<Rightarrow> P fresh | _ \<Rightarrow> True"
  by (simp_all add: rows_event_def)

lemma demo_boot_system: "system_reachable 3 (boot_system idle_birth demo_pid demo_master_config 0)"
  by (rule system_reachable.booting [OF idle_nursery])
    (simp_all add: inj_def demo_pid_def demo_master_config_def sample_config_def)

lemma system_run: "system_reachable N S \<Longrightarrow> sy.admissible N es S \<Longrightarrow> system_reachable N (fold sys_step es S)"
  by (induction es arbitrary: S) (auto intro: moving)

lemma demo_system_reachable: "system_reachable 3 demo_system"
proof -
  have "sy.admissible 3 demo_run (boot_system idle_birth demo_pid demo_master_config 0)"
    unfolding demo_run_def sy.admissible.simps sys_ok.simps
    by (intro conjI TrueI idle_nursery rows_event_ok rows_event_plain) (code_simp+)
  from system_run [OF demo_boot_system this] show ?thesis by (simp add: demo_system_def)
qed

theorem processes_keep_their_word_witness:
  "dom (fleet demo_system) = {100, 101}"
proof -
  have "pids (parent demo_system) = {100, 101}" unfolding pids_def by code_simp
  with processes_keep_their_word [OF demo_system_reachable] show ?thesis by simp
qed

text \<open>
  C5. From the database to the check.  For every worker that has not been replaced, the sites the master
  has handed to it are, in this order, those it has given to the add-on, those in its queue and those
  still under way: none is lost, repeated or overtaken on the way, whatever the order in which the
  processes run; and a worker that has ended has none left in its queue.
\<close>

theorem handed_sites_are_checked_in_order:
  assumes "system_reachable N S" and "fleet S p = Some w"
  shows "map monitor_url (concat (map sites_of (requests_to p (outs (parent S))))) =
      map fst (requests w) @ map monitor_url (drop (pointer w) (arrCheck w)) @
      map monitor_url (concat (map sites_of (pending_requests p S))) \<and>
    (exited w \<noteq> None \<longrightarrow> (\<forall>sv \<in> set (arrCheck w). processed sv))"
proof -
  have w: "worker_reachable w" "schedule w = given (taken S p) p (outs (parent S))"
    using system_reachable_inv [OF assms(1)] assms(2) by (auto simp: sys_inv_def worker_part_def)
  have "requests_to p (outs (parent S)) = take (taken S p) (requests_to p (outs (parent S))) @ pending_requests p S"
    by (simp add: pending_requests_def)
  then have "map monitor_url (concat (map sites_of (requests_to p (outs (parent S))))) =
      given (taken S p) p (outs (parent S)) @ map monitor_url (concat (map sites_of (pending_requests p S)))"
    unfolding given_def by (metis concat_append map_append)
  moreover have "exited w \<noteq> None \<Longrightarrow> dead_inv w" using reachable_inv [OF w(1)] by (simp add: worker_inv_def)
  ultimately show ?thesis using w(2) by (auto simp: schedule_def started_def unstarted_def dead_inv_def)
qed

theorem handed_sites_are_checked_in_order_witness:
  "\<exists>w. fleet demo_system 100 = Some w \<and> length (map fst (requests w)) + length (drop (pointer w) (arrCheck w)) = 2"
proof -
  have f: "fleet demo_system 100 \<noteq> None" by code_simp
  then obtain w where w: "fleet demo_system 100 = Some w" by blast
  have "length (concat (map sites_of (requests_to 100 (outs (parent demo_system))))) = 2"
      "pending_requests 100 demo_system = []" by code_simp+
  with handed_sites_are_checked_in_order [OF demo_system_reachable w, THEN conjunct1, THEN arg_cong, of length] w
  show ?thesis by simp
qed

text \<open>
  The run goes on: the two checks are started, the worker reports its statistics and the master, who
  sees a short queue, sends it the third site; before it reads the request, the results of the checks
  come in, with more memory in use than allowed.
\<close>

definition demo_exit_run :: "sys_event list" where
  "demo_exit_run = [Act 100 Check_timer, Act 100 (Stats_timer 7000 1), Hear 100 7001,
     Act 100 (Result 0 5 200 0 7002 1000000000), Act 100 (Result 1 5 200 0 7003 1000000000),
     Hear 100 7004]"

definition demo_exited :: system where
  "demo_exited = fold sys_step demo_exit_run demo_system"

lemma demo_exited_reachable: "system_reachable 3 demo_exited"
proof -
  have "sy.admissible 3 demo_exit_run demo_system"
    unfolding demo_exit_run_def sy.admissible.simps sys_ok.simps
    by (intro conjI TrueI) (code_simp+)
  from system_run [OF demo_system_reachable this] show ?thesis by (simp add: demo_exited_def)
qed

text \<open>
  C10. A worker that reaches a limit can take sites with it: it ends when its own queue is done, and what the
  master has sent it in the meantime stays in its channel; its exit does not return the sites to the
  queue, so they are not checked in this round.
\<close>

theorem exiting_worker_loses_sites:
  "system_reachable 3 demo_exited \<and> map_option exited (fleet demo_exited 100) = Some (Some 2) \<and>
   pending_requests 100 demo_exited = [Queue_add [site_of_row (demo_row 3)]] \<and>
   sys_ok 3 (Reap idle_birth 100 102) demo_exited \<and>
   (let s = parent (sys_step (Reap idle_birth 100 102) demo_exited)
    in arrObjects s = [] \<and> localRetries s = [] \<and> requests_to 101 (outs s) = [] \<and> requests_to 102 (outs s) = [])"
proof -
  have "map_option exited (fleet demo_exited 100) = Some (Some 2)"
    and "pending_requests 100 demo_exited = [Queue_add [site_of_row (demo_row 3)]]"
    and "let s = parent (sys_step (Reap idle_birth 100 102) demo_exited)
      in arrObjects s = [] \<and> localRetries s = [] \<and> requests_to 101 (outs s) = [] \<and> requests_to 102 (outs s) = []"
    by code_simp+
  moreover have "sys_ok 3 (Reap idle_birth 100 102) demo_exited"
    unfolding sys_ok.simps unused_def by (intro conjI idle_nursery) (code_simp+)
  ultimately show ?thesis using demo_exited_reachable by simp
qed

text \<open>
  C6. No wake-up is lost.  While sites are queued, a worker at rest has asked for work, and its question or
  the answer to it is under way; or it is new and has not asked for the first time yet.  So the
  system does not come to rest with sites left in the queue, in whatever order messages, timers,
  results, exits and database answers arrive; it needs only that DATASET_SIZE is never below one and
  that a worker's channel is open when it asks.
\<close>

theorem no_wakeup_is_lost:
  assumes "system_live N S" and "arrObjects (parent S) \<noteq> []"
    and "fleet S p = Some w" and "exited w = None" and "\<not> running w"
  shows "Send_work p \<in> set (pending_msgs p S) \<or>
    (\<exists>r \<in> set (pending_requests p S). r = Evaporate \<or> (\<exists>d. r = Queue_add d)) \<or>
    (\<not> askedForWork w \<and> requests w = [])"
proof -
  have S: "sys_inv N S" "parley_with p w S"
    using system_live_inv [OF assms(1)] assms(3) by (auto simp: parley_def)
  then have "pool_inv (parent S)" "p \<in> pids (parent S)"
    using reachable_parts assms(3) by (auto simp: sys_inv_def dom_def)
  then have "p \<notin> set (freeWorkers (parent S))" using assms(2) by (auto simp: pool_inv_def)
  moreover have "p \<notin> set (haltedWorkers (parent S))"
    using S(2) assms(4,5) by (auto simp: parley_with_def rested_def)
  ultimately have "\<not> waits p (parent S)" by (simp add: waits_def)
  moreover have "wakes r \<longleftrightarrow> r = Evaporate \<or> (\<exists>d. r = Queue_add d)" for r by (cases r) simp_all
  ultimately show ?thesis
    using S(2) assms(4,5) by (auto simp: parley_with_def rested_def attended_def)
qed

definition demo_asking :: system where
  "demo_asking = fold sys_step (demo_run @ [Act 101 (Ask_timer True)]) (boot_system idle_birth demo_pid demo_master_config 0)"

lemma live_run: "system_live N S \<Longrightarrow> lv.admissible N es S \<Longrightarrow> system_live N (fold sys_step es S)"
  by (induction es arbitrary: S) (auto intro: live_step)

lemma demo_boot_live: "system_live 3 (boot_system idle_birth demo_pid demo_master_config 0)"
  by (rule system_live.live_boot [OF idle_nursery])
    (simp_all add: inj_def demo_pid_def demo_master_config_def sample_config_def)

lemma demo_asking_live: "system_live 3 demo_asking"
proof -
  have "lv.admissible 3 (demo_run @ [Act 101 (Ask_timer True)]) (boot_system idle_birth demo_pid demo_master_config 0)"
    unfolding demo_run_def append.simps lv.admissible.simps sys_ok.simps
    by (intro conjI TrueI idle_nursery rows_event_ok rows_event_plain) (code_simp+)
  from live_run [OF demo_boot_live this] show ?thesis by (simp add: demo_asking_def)
qed

theorem no_wakeup_is_lost_witness:
  "\<exists>w. fleet demo_asking 101 = Some w \<and> Send_work 101 \<in> set (pending_msgs 101 demo_asking)"
proof -
  have s: "map_option exited (fleet demo_asking 101) = Some None" "map_option running (fleet demo_asking 101) = Some False"
      "map_option askedForWork (fleet demo_asking 101) = Some True" "arrObjects (parent demo_asking) \<noteq> []"
      "pending_requests 101 demo_asking = []"
    by code_simp+
  then obtain w where w: "fleet demo_asking 101 = Some w" "exited w = None" "\<not> running w" "askedForWork w" by auto
  from no_wakeup_is_lost [OF demo_asking_live s(4) w(1-3)] w s(5) show ?thesis by simp
qed

text \<open>
  A run of two workers: the first gets two of three sites, the second the third one, on its first
  statistics after one second; after two seconds the second asks for work although its check runs,
  and the first finishes and asks.
\<close>

definition hasty_run :: "sys_event list" where
  "hasty_run = demo_run @ [Act 100 Check_timer, Act 101 (Stats_timer 1000 1), Hear 101 1001,
     Take 101 None (\<lambda>x. 0), Act 101 Check_timer, Act 101 (Ask_timer True), Hear 101 2001,
     Act 100 (Result 0 5 200 0 2900 0), Act 100 (Result 1 5 200 0 2950 0)]"

definition hasty_system :: system where
  "hasty_system = fold sys_step hasty_run (boot_system idle_birth demo_pid demo_master_config 0)"

lemma hasty_reachable: "system_reachable 3 hasty_system"
proof -
  have "sy.admissible 3 hasty_run (boot_system idle_birth demo_pid demo_master_config 0)"
    unfolding hasty_run_def demo_run_def append.simps sy.admissible.simps sys_ok.simps
    by (intro conjI TrueI idle_nursery rows_event_ok rows_event_plain) (code_simp+)
  from system_run [OF demo_boot_system this] show ?thesis by (simp add: hasty_system_def)
qed

text \<open>
  C11. A round can be reported complete while checks run.  The start timer of a worker asks for work even
  when the worker has been given some in the meantime; the master then counts it as waiting, and when the
  others wait as well, the event that comes next ends the round: \<open>round.complete.time\<close> is sent and the round's
  count is reset, with a check of the round still in flight.
\<close>

theorem round_ends_with_checks_running:
  "system_reachable 3 hasty_system \<and> sys_ok 3 (Hear 100 3000) hasty_system \<and>
   map_option inflight (fleet hasty_system 101) = Some [0] \<and>
   Stat (Timing ''round.complete.time'' (VInt 3000)) \<in> set (sys_effects (Hear 100 3000) hasty_system) \<and>
   \<not> inRound (parent (sys_step (Hear 100 3000) hasty_system)) \<and>
   map_option inflight (fleet (sys_step (Hear 100 3000) hasty_system) 101) = Some [0]"
proof -
  have "sys_ok 3 (Hear 100 3000) hasty_system" unfolding sys_ok.simps by code_simp
  moreover have "Stat (Timing ''round.complete.time'' (VInt 3000)) \<in> set (sys_effects (Hear 100 3000) hasty_system)"
    unfolding sys_effects_def by code_simp
  moreover have "map_option inflight (fleet hasty_system 101) = Some [0]"
    and "\<not> inRound (parent (sys_step (Hear 100 3000) hasty_system))"
    and "map_option inflight (fleet (sys_step (Hear 100 3000) hasty_system) 101) = Some [0]"
    by code_simp+
  ultimately show ?thesis using hasty_reachable by simp
qed

section \<open>The master and the HTTPS server\<close>

text \<open>
  C3. Only the verifliers of the configuration can confirm that a site is down.  Whatever is sent to the
  HTTPS server, of whatever form the reports are that it passes on, and in whatever order the processes
  run, every check in the veriflier queue was made by a worker of this host or comes from a configured
  veriflier's host, and the confirmations counted for a site are exactly the offline answers of such
  verifliers.  The verifliers are those of the configuration the server was started with, whatever the
  master reloads.
\<close>

theorem confirmations_come_from_verifliers:
  assumes "front_reachable M N parse query R c F" and "r \<in> set (queuedRetries (office F))"
  shows "(\<forall>ch \<in> set (checks r). check_type ch = JETMON_CHECK \<or> (\<exists>v \<in> set (VERIFIERS c). check_host ch = v_host v)) \<and>
    offline_confirms r = int (length (filter (\<lambda>ch. check_type ch = VERIFLIER_CHECK \<and>
      found_offline (check_status ch) = Inr True \<and>
      (\<exists>v \<in> set (VERIFIERS c). check_host ch = v_host v)) (checks r)))"
proof -
  have F: "answers_from (v_host ` set (VERIFIERS c)) (office F)" "master_reachable M (office F)"
    using front_reachable_inv [OF assms(1)] by (simp_all add: front_inv_def)
  then have h: "\<forall>ch \<in> set (checks r). check_type ch = JETMON_CHECK \<or> (\<exists>v \<in> set (VERIFIERS c). check_host ch = v_host v)"
    using assms(2) by (auto simp: answers_from_def)
  have "offline_confirms r = int (offline_answers (checks r))"
    using reachable_parts [OF F(2)] assms(2) by (simp add: queues_inv_def entry_inv_def)
  also have "offline_answers (checks r) = length (filter (\<lambda>ch. check_type ch = VERIFLIER_CHECK \<and>
      found_offline (check_status ch) = Inr True \<and> (\<exists>v \<in> set (VERIFIERS c). check_host ch = v_host v)) (checks r))"
    unfolding offline_answers_def using h by (intro arg_cong [where f = length] filter_cong) auto
  finally show ?thesis using h by blast
qed

text \<open>
  A run: a site is doubted, a veriflier reports it as offline, and the report is passed on.  The report has
  the members the verifliers of the repository send (\<open>finishedChecking\<close> in \<open>check_controller.cpp\<close>), and so no
  \<open>error_code\<close>.  Before it, one of a form no veriflier sends is passed on, too.
\<close>

definition demo_reader :: "int reader" where
  "demo_reader = \<lparr>as_int = Some, indices = nat, json_text = (\<lambda>j. [])\<rparr>"

definition answer_report :: "(string \<times> int json) list" where
  "answer_report = [(''auth_token'', JStr ''<VERIFLIER_AUTH_TOKEN>''),
     (''checks'', JArr [JObj [(''blog_id'', JNum 1), (''monitor_url'', JStr ''u''), (''status'', JNum 0),
        (''code'', JNum 500), (''rtt'', JNum 9)]])]"

definition odd_report :: "(string \<times> int json) list" where
  "odd_report = [(''auth_token'', JStr ''<VERIFLIER_AUTH_TOKEN>''), (''checks'', JArr [JStr ''u'', JNull])]"

definition answer_parse :: "string \<Rightarrow> int json option" where
  "answer_parse s = (if s = ''{report}'' then Some (JObj answer_report)
     else if s = ''[]'' then Some (JObj odd_report) else None)"

definition front_start :: "int front" where
  "front_start = \<lparr>office = master_start, desks = boot_cluster sample_config, passed = (\<lambda>k. 0)\<rparr>"

definition front_run :: "front_event list" where
  "front_run = [Office (Worker_msg 1000 (Recheck (failed_site 1)))] @
     map (\<lambda>e. Desk (2, e)) ([Incoming 0 ''POST'' ''/put/host-status'', Body_chunk 0 ''[]'', Body_end 0] @ demo_post) @
     [Pass 2 1001, Pass 2 1002]"

definition demo_front :: "int front" where
  "demo_front = fold (front_step demo_numbers answer_parse (\<lambda>url. None) demo_reader) front_run front_start"

lemma demo_front_reachable:
  "front_reachable 3 demo_numbers answer_parse (\<lambda>url. None) demo_reader sample_config demo_front"
proof -
  have "master_init 3 master_start"
    unfolding master_init_def master_start_def
    by (intro exI [of _ demo_master_config] exI [of _ 0] exI [of _ demo_pid])
      (simp add: demo_pid_def demo_master_config_def sample_config_def)
  then have 0: "front_reachable 3 demo_numbers answer_parse (\<lambda>url. None) demo_reader sample_config front_start"
    unfolding front_start_def by (rule front_reachable.opened)
  show ?thesis
    unfolding demo_front_def front_run_def demo_post_def list.map append.simps fold_simps
    by (intro front_reachable.worked 0; unfold front_ok.simps master_ok.simps msg_ok.simps; (intro conjI TrueI)?; code_simp)
qed

theorem confirmations_come_from_verifliers_witness:
  "\<exists>r. queuedRetries (office demo_front) = [r] \<and> length (checks r) = 4 \<and> offline_confirms r = 1 \<and>
     (\<exists>v. v \<in> set (VERIFIERS sample_config) \<and> check_host (last (checks r)) = v_host v)"
proof -
  define r where "r = hd (queuedRetries (office demo_front))"
  have "length (queuedRetries (office demo_front)) = 1" by code_simp
  then have q: "queuedRetries (office demo_front) = [r]"
    by (cases "queuedRetries (office demo_front)") (simp_all add: r_def)
  have c: "length (checks r) = 4" "offline_confirms r = 1" "check_type (last (checks r)) = 2"
    unfolding r_def by code_simp+
  then have "last (checks r) \<in> set (checks r)" by (intro last_in_set) auto
  then have "\<exists>v. v \<in> set (VERIFIERS sample_config) \<and> check_host (last (checks r)) = v_host v"
    using confirmations_come_from_verifliers [OF demo_front_reachable, of r, THEN conjunct1] q c(3)
    by (auto simp: JETMON_CHECK_def)
  with q c show ?thesis by blast
qed

section \<open>What WPCOM hears\<close>

text \<open>
  No message of a worker says that a site is down, so no notice that is open for one does.
\<close>

lemma honest_heard:
  assumes "sys_inv N S" and "pending_msgs p S = m # ms"
  shows "own p m"
proof -
  obtain w where "fleet S p = Some w" "drop (heard S p) (posted w) = m # ms"
    using assms(2) by (cases "fleet S p") (auto simp: pending_msgs_def)
  then have "fleet S p = Some w" "m \<in> set (posted w)" by (simp, metis in_set_dropD list.set_intros(1))
  then show ?thesis using assms(1) by (auto simp: sys_inv_def worker_part_def honest_def)
qed

lemma reachable_news: "system_reachable N S \<Longrightarrow> workers_news (parent S)"
proof (induction rule: system_reachable.induct)
  case (booting birth fresh c now)
  have "openNotices (ensure_worker_count fresh True (boot_master c now)) = []"
    using same_retries_ensure [of "boot_master c now" fresh True] by (simp add: same_retries_def boot_master_def)
  then show ?case by (simp add: boot_system_def workers_news_def Let_def)
next
  case (moving S e)
  have I: "sys_inv N S" by (rule system_reachable_inv [OF moving.hyps(1)])
  show ?case
  proof (cases e)
    case (Hear p now)
    then obtain m ms where m: "pending_msgs p S = m # ms" using moving.hyps(2) by (cases "pending_msgs p S") auto
    then have "\<not> says_down (Worker_msg now m)" using honest_heard [OF I m] by (cases m) auto
    then show ?thesis using news_step [OF moving.IH] Hear m by (simp del: master_step.simps)
  next
    case (Master_event birth ev)
    then have "\<not> says_down ev" using moving.hyps(2) by (cases ev) auto
    then show ?thesis
      using news_step [OF moving.IH] Master_event by (simp add: master_moves_def Let_def del: master_step.simps)
  qed (use moving.IH news_step [OF moving.IH] in
      \<open>auto simp: master_moves_def Let_def simp del: master_step.simps split: option.split list.split\<close>)
qed

lemma sys_effects_simps:
  "sys_effects (Master_event birth ev) S = effects ev (parent S)"
  "sys_effects (Take p fl rnd) S = []" "sys_effects (Act p we) S = []"
  "sys_effects (Killed birth p q) S = effects (Worker_exit p None False q) (parent S)"
  "pending_msgs p S = m # ms \<Longrightarrow> sys_effects (Hear p now) S = effects (Worker_msg now m) (parent S)"
  "fleet S p = Some w \<Longrightarrow> sys_effects (Reap birth p q) S = effects (Worker_exit p (exited w) False q) (parent S)"
  by (auto simp: sys_effects_def effects_def master_moves_def Let_def split: option.split list.split)

lemma effects_announce:
  "Notify nt \<in> set (drop (length (outs s)) (outs (announce k srv st s))) \<longleftrightarrow> nt = notice_of (conf s) srv st"
  using announce_outs [of k srv st s] by auto

text \<open>
  C2. What WPCOM hears, and from whom, in the whole system.  A site is reported as down only with at least
  PEER_OFFLINE_LIMIT answers that found it offline, and at least NUM_OF_CHECKS checks in which this host's
  workers found it down.  And every notice has one of three reasons.  A worker says that the site runs
  again or is still down, and the notice has the status that message stands for; or an answer of a
  veriflier came in, and the notice says that the site is down; or an earlier notice failed, and this one
  repeats it: the same site, status and times, with the same checks and perhaps answers of verifliers
  that have come in since.  What repeats a notice is not itself repeated: it adds nothing to what may
  be sent again.
\<close>

theorem wpcom_hears:
  assumes "system_reachable N S" and "sys_ok N e S" and "Notify nt \<in> set (sys_effects e S)"
  shows "(n_status_id nt = SITE_DOWN \<longrightarrow>
      peerLimit (parent S) \<le> int (offline_answers (n_checks nt)) \<and> 1 \<le> offline_answers (n_checks nt) \<and>
      N \<le> int (local_failures (n_checks nt))) \<and>
    ((\<exists>p now sv. e = Hear p now \<and>
       (hd (pending_msgs p S) = Notify_status_change sv \<and> nt = notice_of (conf (parent S)) sv SITE_RUNNING \<or>
        hd (pending_msgs p S) = Notify_still_down sv \<and> nt = notice_of (conf (parent S)) sv SITE_CONFIRMED_DOWN)) \<or>
     (\<exists>birth now m. e = Master_event birth (Ssl_msg now m) \<and> n_status_id nt = SITE_DOWN) \<or>
     (\<exists>birth i nt0. e = Master_event birth (Wpcom_failed i) \<and>
       Notify nt0 \<in> set (outs (parent S)) \<and> repeats nt0 nt \<and>
       openNotices (parent (sys_step e S)) = openNotices (parent S)))"
proof -
  have I: "sys_inv N S" by (rule system_reachable_inv [OF assms(1)])
  then have r: "master_reachable N (parent S)" by (simp add: sys_inv_def)
  then have q: "queues_inv N (parent S)" using reachable_parts by simp
  show ?thesis
  proof (cases e)
    case (Hear p now)
    then obtain m ms where m: "pending_msgs p S = m # ms"
      using assms(2) by (cases "pending_msgs p S") auto
    have n: "Notify nt \<in> set (effects (Worker_msg now m) (parent S))"
      using assms(3) m Hear by (simp add: sys_effects_simps)
    with honest_heard [OF I m] reached [OF n] m Hear show ?thesis
      by (cases m) (auto simp: effects_def effects_announce notice_of_def)
  next
    case (Master_event birth ev)
    have n: "Notify nt \<in> set (effects ev (parent S))"
      using assms(3) Master_event by (simp add: sys_effects_simps)
    from reached [OF n] have "Wpcom_api \<in> reach ev" by simp
    moreover have "\<not> of_worker ev" using assms(2) Master_event by simp
    ultimately consider (ssl) now m where "ev = Ssl_msg now m" | (again) i where "ev = Wpcom_failed i"
      by (cases ev) auto
    then show ?thesis
    proof cases
      case ssl
      have "confirmed N (peerLimit (parent S)) (Notify nt)"
        using confirms_ssl [OF q, of now m] n ssl by (auto simp: confirms_def effects_def)
      with Master_event ssl show ?thesis by (auto simp: confirmed_def)
    next
      case again
      have i: "i < length (openNotices (parent S))" using assms(2) Master_event again by simp
      note nt = repeated_notice [OF r i n [unfolded again]]
      have "openNotices (parent S) ! i \<in> set (openNotices (parent S))" using i by simp
      then have "n_status_id nt = SITE_DOWN \<Longrightarrow> told_entry (openNotices (parent S) ! i) \<noteq> None"
        using nt reachable_news [OF assms(1)] by (auto simp: workers_news_def tells_def notice_of_def)
      moreover have "openNotices (parent (sys_step e S)) = openNotices (parent S)"
        by (simp add: Master_event again master_moves_def Let_def)
      ultimately show ?thesis using nt Master_event again unfolding backed_def by blast
    qed
  qed (use assms(2,3) in \<open>auto simp: sys_effects_simps split: option.splits dest: reached\<close>)
qed

text \<open>A run: a site that was down runs again.\<close>

definition revived_run :: "sys_event list" where
  "revived_run = [Act 100 (Ask_timer True), Hear 100 1,
     Master_event idle_birth (Batch 5 1 (None, Some [(demo_row 1)\<lparr>row_site_status := 2\<rparr>])),
     Take 100 None (\<lambda>x. 0), Act 100 Check_timer, Act 100 (Result 0 5 200 0 7002 0)]"

definition revived_system :: system where
  "revived_system = fold sys_step revived_run (boot_system idle_birth demo_pid demo_master_config 0)"

lemma revived_reachable: "system_reachable 3 revived_system"
proof -
  have "sy.admissible 3 revived_run (boot_system idle_birth demo_pid demo_master_config 0)"
    unfolding revived_run_def sy.admissible.simps sys_ok.simps master_ok.simps of_worker.simps master_event.case
    by (intro conjI TrueI idle_nursery) (code_simp+)
  from system_run [OF demo_boot_system this] show ?thesis by (simp add: revived_system_def)
qed

text \<open>The master hears of it and tells WPCOM; the request fails.\<close>

definition told_system :: system where
  "told_system = sys_step (Hear 100 7003) revived_system"

theorem wpcom_hears_witness:
  "\<exists>nt nt0. Notify nt \<in> set (sys_effects (Master_event idle_birth (Wpcom_failed 0)) told_system) \<and>
     Notify nt0 \<in> set (outs (parent told_system)) \<and> repeats nt0 nt"
proof -
  let ?e = "Master_event idle_birth (Wpcom_failed 0)"
  have "sys_ok 3 (Hear 100 7003) revived_system" unfolding sys_ok.simps by code_simp
  then have r: "system_reachable 3 told_system"
    unfolding told_system_def by (rule system_reachable.moving [OF revived_reachable])
  have "0 < length (openNotices (parent told_system))" by code_simp
  then have ok: "sys_ok 3 ?e told_system" using idle_nursery by simp
  have "notices (sys_effects ?e told_system) \<noteq> []" unfolding sys_effects_def by code_simp
  then obtain nt where n: "Notify nt \<in> set (sys_effects ?e told_system)"
    unfolding set_notices [symmetric] by (meson last_in_set)
  with wpcom_hears [OF r ok n] show ?thesis by auto
qed

end
